theory Spec2Isabelle
  imports Complex_Main "HOL-Library.Word" "HOL-Library.Log_Nat"
begin

section \<open>Data model of the compositor (imageUtils)\<close>

text \<open>
  A JavaScript number is a real (\<open>jsnum\<close>), and \<open>Math.floor\<close> is \<open>\<lfloor>_\<rfloor>\<close>. Integer quantities
  of the platform (canvas and image dimensions, array lengths, loop counters, channel sums)
  are \<open>nat\<close>, converted with \<open>real\<close> where the source mixes them into arithmetic; they stay
  below \<open>2 ^ 53\<close>, where a double holds every integer exactly.

  Where the result of the source depends on how a double is rounded, each operation is
  rounded with \<open>fl\<close> below: in the cover fit, whose comparison and inequalities sit on the
  rounding boundary, and in the quotients of the theme sampler, which are floored. The
  layout of the overlay and of the text is written with the exact operations; a double
  result there differs from the exact one by rounding only.
\<close>

type_synonym jsnum = real

subsection \<open>Rounding to a double\<close>

text \<open>
  \<open>binExp x\<close> is the binary exponent of \<open>x \<noteq> 0\<close>: the \<open>e\<close> with \<open>2 ^ e \<le> \<bar>x\<bar> < 2 ^ (e + 1)\<close>,
  read off the bit length of \<open>\<lfloor>\<bar>x\<bar>\<rfloor>\<close> or of \<open>\<lceil>1 / \<bar>x\<bar>\<rceil> - 1\<close>. \<open>roundEven\<close> rounds to the nearest
  integer, a tie to the even one. \<open>fl x\<close> is the nearest number with a significand of 53
  bits: IEEE 754 binary64, round to nearest even, for magnitudes in the normal range
  (between \<open>2 ^ -1022\<close> and \<open>2 ^ 1024\<close>), which the quotients and products of dimensions
  never leave.
\<close>

definition binExp :: "real \<Rightarrow> int" where
  "binExp x =
     (let a = \<bar>x\<bar>
      in if 1 \<le> a then int (floorlog 2 (nat \<lfloor>a\<rfloor>)) - 1
         else - int (floorlog 2 (nat \<lceil>1 / a\<rceil> - 1)))"

definition roundEven :: "real \<Rightarrow> int" where
  "roundEven y =
     (let f = \<lfloor>y\<rfloor>; d = y - of_int f
      in if d < 1 / 2 then f else if 1 / 2 < d then f + 1 else if even f then f else f + 1)"

definition fl :: "real \<Rightarrow> jsnum" where
  "fl x = (if x = 0 then 0
           else let u = 2 powi (binExp x - 52) in of_int (roundEven (x / u)) * u)"

subsection \<open>Errors, images, colours and the canvas\<close>

text \<open>The promise of \<open>compositeFinalImage\<close> rejects with one of these.\<close>

datatype error =
    ImageLoadFailed        \<comment> \<open>\<open>loadImage\<close>: \<open>img.onerror = reject\<close>\<close>
  | CanvasContextMissing   \<comment> \<open>\<open>throw new Error("Canvas context missing")\<close>\<close>
  | IndexSizeError         \<comment> \<open>\<open>getImageData\<close> asked for a rectangle of width or height 0\<close>

record html_image =
  imgWidth :: nat
  imgHeight :: nat

text \<open>
  A colour string: a literal such as \<open>'#000'\<close> is kept as text; a template
  \<open>`rgba(${r},${g},${b}, a)`\<close> is kept as the four numbers that are printed into it.
\<close>

datatype colour = Css string | Rgba jsnum jsnum jsnum jsnum

record gradient =
  gx0 :: jsnum
  gy0 :: jsnum
  gx1 :: jsnum
  gy1 :: jsnum
  stops :: "(jsnum \<times> colour) list"

datatype paint = Solid colour | Linear gradient

record font_spec =
  fontWeight :: nat
  fontPx :: int
  fontFamily :: string

text \<open>
  A JavaScript string is a list of UTF-16 code units. \<open>str\<close> writes an ASCII literal as one.
  The strings of the styles (colours, font families, alignment) are constants that nothing
  computes with; they stay \<open>string\<close>.
\<close>

type_synonym jschar = "16 word"
type_synonym jsstring = "jschar list"

definition str :: "string \<Rightarrow> jsstring" where
  "str s = map of_char s"

abbreviation spaceChar :: jschar where
  "spaceChar \<equiv> 0x0020"

text \<open>The calls that paint, in the order they are made, each with the state it paints with.\<close>

datatype draw_op =
    FillRect paint jsnum jsnum jsnum jsnum
  | DrawImage html_image jsnum jsnum jsnum jsnum
  | FillText font_spec paint jsnum jsstring jsnum jsnum

text \<open>
  The canvas with its 2D context. \<open>pixels\<close> is the backing store, four bytes (R, G, B, A)
  per pixel, row by row.
\<close>

record ctx2d =
  cvWidth :: nat
  cvHeight :: nat
  pixels :: "8 word list"
  fillStyle :: paint
  font :: font_spec
  textAlign :: string
  shadowColor :: colour
  shadowBlur :: jsnum
  shadowOffsetX :: jsnum
  shadowOffsetY :: jsnum
  drawn :: "draw_op list"

section \<open>Theme sampler: \<open>getDominantColor\<close>\<close>

text \<open>
  \<open>ctx.getImageData(sx, sy, sw, sh)\<close>: the platform returns \<open>4 * sw * sh\<close> bytes, row by
  row; a pixel outside the canvas reads as transparent black; a rectangle of width or
  height 0 raises \<open>IndexSizeError\<close>.
\<close>

definition pixelByte :: "ctx2d \<Rightarrow> nat \<Rightarrow> nat \<Rightarrow> nat \<Rightarrow> 8 word" where
  "pixelByte ctx x y c =
     (let k = 4 * (y * cvWidth ctx + x) + c
      in if x < cvWidth ctx \<and> y < cvHeight ctx \<and> k < length (pixels ctx)
         then pixels ctx ! k else 0)"

definition getImageData :: "ctx2d \<Rightarrow> nat \<Rightarrow> nat \<Rightarrow> nat \<Rightarrow> nat \<Rightarrow> error + 8 word list" where
  "getImageData ctx sx sy sw sh =
     (if sw = 0 \<or> sh = 0 then Inl IndexSizeError
      else Inr (map (\<lambda>k. pixelByte ctx (sx + (k div 4) mod sw) (sy + (k div 4) div sw) (k mod 4))
                    [0 ..< 4 * sw * sh]))"

text \<open>
  The sampling loop \<open>for (let i = 0; i < count; i += 10)\<close>, with the three running sums.
  Every index it reads is below \<open>data.length\<close>, because \<open>i < count = data.length / 4\<close>.
\<close>

function sampleLoop :: "8 word list \<Rightarrow> nat \<Rightarrow> nat \<Rightarrow> nat \<times> nat \<times> nat \<Rightarrow> nat \<times> nat \<times> nat" where
  "sampleLoop data count i (r, g, b) =
     (if i < count
      then (let offset = i * 4
            in sampleLoop data count (i + 10)
                 (r + unat (data ! offset), g + unat (data ! (offset + 1)), b + unat (data ! (offset + 2))))
      else (r, g, b))"
  by pat_completeness auto
termination
  by (relation "measure (\<lambda>(data, count, i, acc). count - i)") auto

text \<open>
  The body of \<open>getDominantColor\<close> after \<open>getImageData\<close> has returned. \<open>data\<close> holds at
  least one pixel and \<open>data.length\<close> is a multiple of 4, so \<open>count\<close> is a positive integer.
  \<open>actualCount = count / 10\<close> and the three quotients are double divisions, rounded before
  \<open>Math.floor\<close> sees them. The result stands for the string \<open>`rgb(${r},${g},${b})`\<close>.
\<close>

definition averageOf :: "8 word list \<Rightarrow> int \<times> int \<times> int" where
  "averageOf data =
     (let count = length data div 4;
          (r, g, b) = sampleLoop data count 0 (0, 0, 0);
          actualCount = fl (real count / 10)
      in (\<lfloor>fl (real r / actualCount)\<rfloor>, \<lfloor>fl (real g / actualCount)\<rfloor>,
          \<lfloor>fl (real b / actualCount)\<rfloor>))"

definition getDominantColor :: "ctx2d \<Rightarrow> nat \<Rightarrow> nat \<Rightarrow> error + int \<times> int \<times> int" where
  "getDominantColor ctx width height =
     (let sampleHeight = nat \<lfloor>real height * 0.2\<rfloor>;
          startY = height - sampleHeight
      in case getImageData ctx 0 startY width sampleHeight of
           Inl e \<Rightarrow> Inl e
         | Inr data \<Rightarrow> Inr (averageOf data))"

text \<open>A canvas of the given size with every byte 255 (opaque white), for the examples.\<close>

definition whiteCanvas :: "nat \<Rightarrow> nat \<Rightarrow> ctx2d" where
  "whiteCanvas w h =
     \<lparr>cvWidth = w, cvHeight = h, pixels = replicate (4 * w * h) 255,
      fillStyle = Solid (Css ''#000000''),
      font = \<lparr>fontWeight = 400, fontPx = 10, fontFamily = ''sans-serif''\<rparr>,
      textAlign = ''start'', shadowColor = Rgba 0 0 0 0, shadowBlur = 0,
      shadowOffsetX = 0, shadowOffsetY = 0, drawn = []\<rparr>"

section \<open>The platform\<close>

text \<open>
  What the browser supplies and the source only calls: decoding the image (\<open>loadImage\<close>
  resolves with the element or rejects), whether \<open>getContext('2d')\<close> returns a context,
  the pixels that \<open>drawImage\<close> leaves on the canvas, \<open>measureText(s).width\<close> under the
  current font, and \<open>String.prototype.toUpperCase\<close>, the upper-case mapping of Unicode.
\<close>

record platform =
  loadImage :: "string \<Rightarrow> html_image option"
  haveContext :: bool
  rasterise :: "html_image \<Rightarrow> jsnum \<Rightarrow> jsnum \<Rightarrow> jsnum \<Rightarrow> jsnum \<Rightarrow> ctx2d \<Rightarrow> 8 word list"
  measureText :: "font_spec \<Rightarrow> jsstring \<Rightarrow> jsnum"
  toUpperCase :: "jsstring \<Rightarrow> jsstring"

text \<open>\<open>document.createElement('canvas')\<close> with the two assignments, and a fresh context.\<close>

definition createCanvas :: "nat \<Rightarrow> nat \<Rightarrow> ctx2d" where
  "createCanvas targetWidth targetHeight =
     \<lparr>cvWidth = targetWidth, cvHeight = targetHeight,
      pixels = replicate (4 * targetWidth * targetHeight) 0,
      fillStyle = Solid (Css ''#000000''),
      font = \<lparr>fontWeight = 400, fontPx = 10, fontFamily = ''sans-serif''\<rparr>,
      textAlign = ''start'', shadowColor = Rgba 0 0 0 0, shadowBlur = 0,
      shadowOffsetX = 0, shadowOffsetY = 0, drawn = []\<rparr>"

definition fillRect :: "jsnum \<Rightarrow> jsnum \<Rightarrow> jsnum \<Rightarrow> jsnum \<Rightarrow> ctx2d \<Rightarrow> ctx2d" where
  "fillRect x y w h ctx = ctx\<lparr>drawn := drawn ctx @ [FillRect (fillStyle ctx) x y w h]\<rparr>"

definition fillText :: "jsstring \<Rightarrow> jsnum \<Rightarrow> jsnum \<Rightarrow> ctx2d \<Rightarrow> ctx2d" where
  "fillText s x y ctx =
     ctx\<lparr>drawn := drawn ctx @ [FillText (font ctx) (fillStyle ctx) (shadowBlur ctx) s x y]\<rparr>"

definition drawImage :: "platform \<Rightarrow> html_image \<Rightarrow> jsnum \<Rightarrow> jsnum \<Rightarrow> jsnum \<Rightarrow> jsnum \<Rightarrow> ctx2d \<Rightarrow> ctx2d" where
  "drawImage P img dx dy dw dh ctx =
     ctx\<lparr>pixels := rasterise P img dx dy dw dh ctx,
         drawn := drawn ctx @ [DrawImage img dx dy dw dh]\<rparr>"

text \<open>The finished canvas as \<open>toDataURL('image/png')\<close> encodes it: a PNG of the canvas size.\<close>

record encoded_png =
  pngWidth :: nat
  pngHeight :: nat
  pngContent :: "draw_op list"

definition toDataURL :: "ctx2d \<Rightarrow> encoded_png" where
  "toDataURL ctx = \<lparr>pngWidth = cvWidth ctx, pngHeight = cvHeight ctx, pngContent = drawn ctx\<rparr>"

section \<open>Stage 1: cover fit\<close>

record placement =
  drawWidth :: jsnum
  drawHeight :: jsnum
  offsetX :: jsnum
  offsetY :: jsnum

text \<open>
  Lines 94 to 111, every quotient, product and difference rounded as the double operation
  rounds it (halving a double is exact, and is rounded all the same). With an image of
  width or height 0 the quotients are NaN or infinite and \<open>drawImage\<close> draws nothing: that
  is \<open>None\<close>. With \<open>targetHeight = 0\<close> the target aspect is \<open>Infinity\<close> or NaN and the
  comparison is false.
\<close>

definition coverFit :: "html_image \<Rightarrow> nat \<Rightarrow> nat \<Rightarrow> placement option" where
  "coverFit img targetWidth targetHeight =
     (if imgWidth img = 0 \<or> imgHeight img = 0 then None
      else
        let imgAspect = fl (real (imgWidth img) / real (imgHeight img));
            targetAspect = fl (real targetWidth / real targetHeight)
        in if targetHeight \<noteq> 0 \<and> imgAspect > targetAspect
           then (let dH = real targetHeight;
                     dW = fl (real (imgWidth img) * fl (real targetHeight / real (imgHeight img)))
                 in Some \<lparr>drawWidth = dW, drawHeight = dH,
                          offsetX = fl (fl (real targetWidth - dW) / 2), offsetY = 0\<rparr>)
           else (let dW = real targetWidth;
                     dH = fl (real (imgHeight img) * fl (real targetWidth / real (imgWidth img)))
                 in Some \<lparr>drawWidth = dW, drawHeight = dH,
                          offsetX = 0, offsetY = fl (fl (real targetHeight - dH) / 2)\<rparr>))"

text \<open>
  Lines 113 to 118: the black background, then the image. After the fill every pixel is
  opaque black; the rasteriser paints the image over that.
\<close>

definition drawCover :: "platform \<Rightarrow> html_image \<Rightarrow> nat \<Rightarrow> nat \<Rightarrow> ctx2d \<Rightarrow> ctx2d" where
  "drawCover P img targetWidth targetHeight ctx =
     (let ctx = ctx\<lparr>fillStyle := Solid (Css ''#000'')\<rparr>;
          ctx = fillRect 0 0 (real targetWidth) (real targetHeight) ctx;
          ctx = ctx\<lparr>pixels := concat (replicate (cvWidth ctx * cvHeight ctx) [0, 0, 0, 255])\<rparr>
      in case coverFit img targetWidth targetHeight of
           None \<Rightarrow> ctx
         | Some p \<Rightarrow> drawImage P img (offsetX p) (offsetY p) (drawWidth p) (drawHeight p) ctx)"

section \<open>Stage 3: gradient overlay\<close>

definition createLinearGradient :: "jsnum \<Rightarrow> jsnum \<Rightarrow> jsnum \<Rightarrow> jsnum \<Rightarrow> gradient" where
  "createLinearGradient x0 y0 x1 y1 = \<lparr>gx0 = x0, gy0 = y0, gx1 = x1, gy1 = y1, stops = []\<rparr>"

definition addColorStop :: "jsnum \<Rightarrow> colour \<Rightarrow> gradient \<Rightarrow> gradient" where
  "addColorStop off c g = g\<lparr>stops := stops g @ [(off, c)]\<rparr>"

text \<open>
  Lines 125 to 133. The theme arrives as \<open>rgb(r,g,b)\<close> with three non-negative integers;
  \<open>match(/\d+/g).map(Number)\<close> reads the same three integers back.
\<close>

definition overlayGradient :: "int \<times> int \<times> int \<Rightarrow> nat \<Rightarrow> gradient" where
  "overlayGradient themeColor targetHeight =
     (let (ri, gi, bi) = themeColor;
          r = real_of_int ri; g = real_of_int gi; b = real_of_int bi;
          gradient = createLinearGradient 0 (real targetHeight * 0.5) 0 (real targetHeight);
          gradient = addColorStop 0 (Rgba r g b 0) gradient;
          gradient = addColorStop 0.6 (Rgba (r * 0.5) (g * 0.5) (b * 0.5) 0.8) gradient;
          gradient = addColorStop 1 (Rgba (r * 0.2) (g * 0.2) (b * 0.2) 1) gradient
      in gradient)"

text \<open>Lines 135 and 136.\<close>

definition addOverlay :: "int \<times> int \<times> int \<Rightarrow> nat \<Rightarrow> nat \<Rightarrow> ctx2d \<Rightarrow> ctx2d" where
  "addOverlay themeColor targetWidth targetHeight ctx =
     (let ctx = ctx\<lparr>fillStyle := Linear (overlayGradient themeColor targetHeight)\<rparr>
      in fillRect 0 (real targetHeight * 0.4) (real targetWidth) (real targetHeight * 0.6) ctx)"

section \<open>Stage 3: text\<close>

subsection \<open>The string methods the source calls\<close>

text \<open>
  \<open>split(' ')\<close>: the pieces between the spaces, empty pieces included; the empty string
  gives one empty piece.
\<close>

fun splitAcc :: "jsstring \<Rightarrow> jsstring \<Rightarrow> jsstring list" where
  "splitAcc cur [] = [cur]"
| "splitAcc cur (c # cs) =
     (if c = spaceChar then cur # splitAcc [] cs else splitAcc (cur @ [c]) cs)"

definition splitSpace :: "jsstring \<Rightarrow> jsstring list" where
  "splitSpace s = splitAcc [] s"

text \<open>
  \<open>trim\<close> removes white space and line terminators from both ends (ECMAScript
  \<open>WhiteSpace\<close> and \<open>LineTerminator\<close>): tab, line feed, vertical tab, form feed, carriage
  return, space, no-break space U+00A0, U+1680, U+2000 to U+200A, the line and paragraph
  separators U+2028 and U+2029, U+202F, U+205F, U+3000 and the byte order mark U+FEFF.
\<close>

definition isWhiteSpace :: "jschar \<Rightarrow> bool" where
  "isWhiteSpace c =
     (c = 0x0009 \<or> c = 0x000A \<or> c = 0x000B \<or> c = 0x000C \<or> c = 0x000D \<or> c = 0x0020 \<or>
      c = 0x00A0 \<or> c = 0x1680 \<or> (0x2000 \<le> c \<and> c \<le> 0x200A) \<or> c = 0x2028 \<or> c = 0x2029 \<or>
      c = 0x202F \<or> c = 0x205F \<or> c = 0x3000 \<or> c = 0xFEFF)"

definition trim :: "jsstring \<Rightarrow> jsstring" where
  "trim s = rev (dropWhile isWhiteSpace (rev (dropWhile isWhiteSpace s)))"

subsection \<open>Word wrap and title position\<close>

text \<open>
  Lines 165 to 177: the loop over \<open>words\<close> with its counter \<open>n\<close>, the committed \<open>lines\<close>
  and the current \<open>line\<close>; then the last \<open>lines.push(line)\<close>.
\<close>

fun wrapLoop ::
  "(jsstring \<Rightarrow> jsnum) \<Rightarrow> jsnum \<Rightarrow> jsstring list \<Rightarrow> nat \<Rightarrow> jsstring list \<Rightarrow> jsstring
     \<Rightarrow> jsstring list \<times> jsstring" where
  "wrapLoop measureFn maxWidth [] n lines line = (lines, line)"
| "wrapLoop measureFn maxWidth (w # ws) n lines line =
     (let testLine = line @ w @ [spaceChar];
          testWidth = measureFn testLine
      in if testWidth > maxWidth \<and> n > 0
         then wrapLoop measureFn maxWidth ws (n + 1) (lines @ [line]) (w @ [spaceChar])
         else wrapLoop measureFn maxWidth ws (n + 1) lines testLine)"

definition wrapLines :: "(jsstring \<Rightarrow> jsnum) \<Rightarrow> jsnum \<Rightarrow> jsstring list \<Rightarrow> jsstring list" where
  "wrapLines measureFn maxWidth words =
     (let (lines, line) = wrapLoop measureFn maxWidth words 0 [] [] in lines @ [line])"

text \<open>
  Lines 151 to 184 without the context: the \<open>fillText\<close> calls of the title as
  (text, x, y), in the order they are made. \<open>y\<close> is assigned three times, as in the source.
  \<open>upper\<close> is the platform's \<open>toUpperCase\<close>, \<open>measureFn\<close> its \<open>measureText\<close> under the title
  font.
\<close>

definition titleLayout ::
  "(jsstring \<Rightarrow> jsstring) \<Rightarrow> (jsstring \<Rightarrow> jsnum) \<Rightarrow> int \<Rightarrow> jsstring \<Rightarrow> nat \<Rightarrow> nat
     \<Rightarrow> (jsstring \<times> jsnum \<times> jsnum) list" where
  "titleLayout upper measureFn fontSizeName gameName targetWidth targetHeight =
     (let words = splitSpace (upper gameName);
          y = real targetHeight - (real targetHeight * 0.18);
          lineHeight = real_of_int fontSizeName * 1.1;
          y = (if length gameName > 15 then y - lineHeight else y);
          maxWidth = real targetWidth * 0.9;
          lines = wrapLines measureFn maxWidth words;
          y = real targetHeight - (real targetHeight * 0.15) - ((real (length lines) - 1) * lineHeight)
      in map (\<lambda>i. (trim (lines ! i), real targetWidth / 2, y + (real i * lineHeight)))
             [0 ..< length lines])"

text \<open>The font string \<open>`${weight} ${px}px "Inter", sans-serif`\<close>.\<close>

definition interFont :: "nat \<Rightarrow> int \<Rightarrow> font_spec" where
  \<open>interFont weight px = \<lparr>fontWeight = weight, fontPx = px, fontFamily = ''"Inter", sans-serif''\<rparr>\<close>

text \<open>Lines 139 to 184.\<close>

definition drawTitle :: "platform \<Rightarrow> jsstring \<Rightarrow> nat \<Rightarrow> nat \<Rightarrow> ctx2d \<Rightarrow> ctx2d" where
  "drawTitle P gameName targetWidth targetHeight ctx =
     (let ctx = ctx\<lparr>textAlign := ''center'', shadowColor := Rgba 0 0 0 0.8, shadowBlur := 10,
                    shadowOffsetX := 0, shadowOffsetY := 4\<rparr>;
          fontSizeName = \<lfloor>real targetWidth * 0.12\<rfloor>;
          ctx = ctx\<lparr>font := interFont 900 fontSizeName\<rparr>;
          ctx = ctx\<lparr>fillStyle := Solid (Css ''#FFFFFF'')\<rparr>
      in foldl (\<lambda>c (s, x, y). fillText s x y c) ctx
           (titleLayout (toUpperCase P) (measureText P (font ctx)) fontSizeName gameName
              targetWidth targetHeight))"

text \<open>Lines 186 to 193.\<close>

definition drawProvider :: "platform \<Rightarrow> jsstring \<Rightarrow> nat \<Rightarrow> nat \<Rightarrow> ctx2d \<Rightarrow> ctx2d" where
  "drawProvider P providerName targetWidth targetHeight ctx =
     (let fontSizeProvider = \<lfloor>real targetWidth * 0.05\<rfloor>;
          ctx = ctx\<lparr>font := interFont 500 fontSizeProvider\<rparr>;
          ctx = ctx\<lparr>fillStyle := Solid (Rgba 255 255 255 0.7)\<rparr>;
          ctx = ctx\<lparr>shadowBlur := 0\<rparr>;
          providerY = real targetHeight - (real targetHeight * 0.05)
      in fillText (toUpperCase P providerName) (real targetWidth / 2) providerY ctx)"

section \<open>The pipeline: \<open>compositeFinalImage\<close>\<close>

definition compositeFinalImage ::
  "platform \<Rightarrow> string \<Rightarrow> jsstring \<Rightarrow> jsstring \<Rightarrow> nat \<Rightarrow> nat \<Rightarrow> error + encoded_png" where
  "compositeFinalImage P base64Image gameName providerName targetWidth targetHeight =
     (case loadImage P base64Image of
        None \<Rightarrow> Inl ImageLoadFailed
      | Some img \<Rightarrow>
          if \<not> haveContext P then Inl CanvasContextMissing
          else
            let ctx = createCanvas targetWidth targetHeight;
                ctx = drawCover P img targetWidth targetHeight ctx
            in case getDominantColor ctx targetWidth targetHeight of
                 Inl e \<Rightarrow> Inl e
               | Inr themeColor \<Rightarrow>
                   let ctx = addOverlay themeColor targetWidth targetHeight ctx;
                       ctx = drawTitle P gameName targetWidth targetHeight ctx;
                       ctx = drawProvider P providerName targetWidth targetHeight ctx
                   in Inr (toDataURL ctx))"

subsection \<open>A platform for the examples\<close>

text \<open>
  A deterministic stand-in: every image decodes to the given size, a context exists, the
  rasteriser leaves the canvas as it is, every character is \<open>k\<close> pixels wide per pixel of
  font size, and upper-casing moves the letters a to z to A to Z (what \<open>toUpperCase\<close> does
  on ASCII text).
\<close>

definition fixedWidth :: "jsnum \<Rightarrow> jsstring \<Rightarrow> jsnum" where
  "fixedWidth k s = k * real (length s)"

definition asciiUpper :: "jsstring \<Rightarrow> jsstring" where
  "asciiUpper s = map (\<lambda>c. if 0x0061 \<le> c \<and> c \<le> 0x007A then c - 0x0020 else c) s"

definition stubPlatform :: "nat \<Rightarrow> nat \<Rightarrow> jsnum \<Rightarrow> platform" where
  "stubPlatform w h k =
     \<lparr>loadImage = (\<lambda>src. Some \<lparr>imgWidth = w, imgHeight = h\<rparr>), haveContext = True,
      rasterise = (\<lambda>img dx dy dw dh ctx. pixels ctx),
      measureText = (\<lambda>f s. fixedWidth (k * real_of_int (fontPx f)) s),
      toUpperCase = asciiUpper\<rparr>"

section \<open>Notions used by the statements\<close>

subsection \<open>Sampler\<close>

text \<open>The pixel indices the sampling loop reads when it is entered with counter \<open>i\<close>.\<close>

function visitedFrom :: "nat \<Rightarrow> nat \<Rightarrow> nat list" where
  "visitedFrom i count = (if i < count then i # visitedFrom (i + 10) count else [])"
  by pat_completeness auto
termination
  by (relation "measure (\<lambda>(i, count). count - i)") auto

definition channelSum :: "8 word list \<Rightarrow> nat list \<Rightarrow> nat \<Rightarrow> nat" where
  "channelSum data is c = sum_list (map (\<lambda>i. unat (data ! (i * 4 + c))) is)"

text \<open>
  The sampler as the specification words it: each channel sum over the visited pixels,
  divided by the number of pixels visited, truncated.
\<close>

definition sampledMean :: "8 word list \<Rightarrow> int \<times> int \<times> int" where
  "sampledMean data =
     (let is = visitedFrom 0 (length data div 4);
          n = real (length is)
      in (\<lfloor>real (channelSum data is 0) / n\<rfloor>, \<lfloor>real (channelSum data is 1) / n\<rfloor>,
          \<lfloor>real (channelSum data is 2) / n\<rfloor>))"

subsection \<open>Word wrap\<close>

text \<open>A line as the loop builds it from its words: every word followed by one space.\<close>

definition render :: "jsstring list \<Rightarrow> jsstring" where
  "render ws = concat (map (\<lambda>w. w @ [spaceChar]) ws)"

text \<open>
  The greedy wrap as the specification words it, on groups of words: the next word joins
  the current line unless the line with it (and its trailing space) measures more than the
  limit; then the current line is committed and the word starts a new one. The first word
  always starts the first line. The last line is always committed.
\<close>

fun greedyFrom ::
  "(jsstring \<Rightarrow> jsnum) \<Rightarrow> jsnum \<Rightarrow> jsstring list \<Rightarrow> jsstring list \<Rightarrow> jsstring list list" where
  "greedyFrom measureFn maxWidth cur [] = [cur]"
| "greedyFrom measureFn maxWidth cur (w # ws) =
     (if measureFn (render (cur @ [w])) > maxWidth
      then cur # greedyFrom measureFn maxWidth [w] ws
      else greedyFrom measureFn maxWidth (cur @ [w]) ws)"

fun greedyWrap :: "(jsstring \<Rightarrow> jsnum) \<Rightarrow> jsnum \<Rightarrow> jsstring list \<Rightarrow> jsstring list list" where
  "greedyWrap measureFn maxWidth [] = [[]]"
| "greedyWrap measureFn maxWidth (w # ws) = greedyFrom measureFn maxWidth [w] ws"

text \<open>\<open>Array.prototype.join(' ')\<close>.\<close>

fun joinSpace :: "jsstring list \<Rightarrow> jsstring" where
  "joinSpace [] = []"
| "joinSpace [w] = w"
| "joinSpace (w # v # ws) = w @ [spaceChar] @ joinSpace (v # ws)"

text \<open>A word that \<open>trim\<close> leaves alone at either end of a line.\<close>

definition cleanWord :: "jsstring \<Rightarrow> bool" where
  "cleanWord w = (w \<noteq> [] \<and> \<not> isWhiteSpace (hd w) \<and> \<not> isWhiteSpace (last w))"

subsection \<open>Gradient painting\<close>

text \<open>
  Modelled from the spec: how a gradient is painted is the platform's business
  (\<open>CanvasGradient\<close>), not code of the repository. Between two stops the colour is
  interpolated linearly; before the first stop the colour of the first stop extends, after
  the last stop the colour of the last one. For a vertical gradient the position of a
  point is \<open>(y - y0) / (y1 - y0)\<close>; a gradient of length 0 paints nothing.
\<close>

fun mixColour :: "colour \<Rightarrow> colour \<Rightarrow> jsnum \<Rightarrow> colour" where
  "mixColour (Rgba r1 g1 b1 a1) (Rgba r2 g2 b2 a2) u =
     Rgba (r1 + (r2 - r1) * u) (g1 + (g2 - g1) * u) (b1 + (b2 - b1) * u) (a1 + (a2 - a1) * u)"
| "mixColour c1 c2 u = c1"

fun stopColourAt :: "(jsnum \<times> colour) list \<Rightarrow> jsnum \<Rightarrow> colour" where
  "stopColourAt [] t = Rgba 0 0 0 0"
| "stopColourAt [(o1, c1)] t = c1"
| "stopColourAt ((o1, c1) # (o2, c2) # rest) t =
     (if t \<le> o1 then c1
      else if t < o2 then mixColour c1 c2 ((t - o1) / (o2 - o1))
      else stopColourAt ((o2, c2) # rest) t)"

definition gradientColourAt :: "gradient \<Rightarrow> jsnum \<Rightarrow> colour" where
  "gradientColourAt g y =
     (if gy1 g = gy0 g then Rgba 0 0 0 0
      else stopColourAt (stops g) ((y - gy0 g) / (gy1 g - gy0 g)))"

fun alpha :: "colour \<Rightarrow> jsnum" where
  "alpha (Rgba r g b a) = a"
| "alpha (Css s) = 1"

section \<open>Rounding\<close>

text \<open>The rules that evaluate \<open>fl\<close> at a number.\<close>

lemmas fl_eval = fl_def binExp_def roundEven_def compute_floorlog Let_def

lemma binExp_lower:
  assumes "x \<noteq> 0"
  shows "2 powi (binExp x) \<le> \<bar>x\<bar>"
proof (cases "1 \<le> \<bar>x\<bar>")
  case True
  define n where "n = nat \<lfloor>\<bar>x\<bar>\<rfloor>"
  from True have n: "0 < n" by (simp add: n_def)
  from n have fp: "0 < floorlog 2 n" by (simp add: floorlog_def)
  have "binExp x = int (floorlog 2 n) - 1"
    using True by (simp add: binExp_def n_def Let_def)
  with fp have e: "binExp x = int (floorlog 2 n - 1)" by (simp add: of_nat_diff)
  have "(2::nat) ^ (floorlog 2 n - 1) \<le> n" using floorlog_bounds [OF n, of 2] by simp
  then have "real ((2::nat) ^ (floorlog 2 n - 1)) \<le> real n" by (simp only: of_nat_le_iff)
  also have "real n \<le> \<bar>x\<bar>" using True by (simp add: n_def)
  finally show ?thesis by (simp add: e)
next
  case False
  define c where "c = \<lceil>1 / \<bar>x\<bar>\<rceil>"
  define m where "m = nat c - 1"
  define k where "k = floorlog 2 m"
  from False assms have inv: "1 < 1 / \<bar>x\<bar>" by simp
  then have c2: "2 \<le> c" unfolding c_def by (simp add: le_ceiling_iff)
  then have m: "0 < m" and c: "c = int m + 1" unfolding m_def by arith+
  have e: "binExp x = - int k" using False by (simp add: binExp_def Let_def m_def k_def c_def)
  have "m < 2 ^ k" using floorlog_bounds [OF m, of 2] by (simp add: k_def)
  then have "int m + 1 \<le> 2 ^ k" by (metis of_nat_less_iff of_nat_numeral of_nat_power zless_imp_add1_zle)
  then have "c \<le> 2 ^ k" by (simp only: c)
  then have "1 / \<bar>x\<bar> \<le> 2 ^ k" unfolding c_def by (simp add: ceiling_le_iff)
  then have "1 / 2 ^ k \<le> \<bar>x\<bar>" using assms by (simp add: field_simps)
  then show ?thesis by (simp add: e power_int_minus_divide)
qed

lemma roundEven_close: "\<bar>real_of_int (roundEven y) - y\<bar> \<le> 1 / 2"
proof -
  have "real_of_int \<lfloor>y\<rfloor> \<le> y" "y < real_of_int \<lfloor>y\<rfloor> + 1" by linarith+
  then show ?thesis by (auto simp: roundEven_def Let_def abs_le_iff)
qed

text \<open>A rounded number is within half a unit in the last place of the exact one.\<close>

lemma fl_error: "\<bar>fl x - x\<bar> \<le> \<bar>x\<bar> / 2 ^ 53"
proof (cases "x = 0")
  case True
  then show ?thesis by (simp add: fl_def)
next
  case False
  define u :: real where "u = 2 powi (binExp x - 52)"
  have upos: "0 < u" by (simp add: u_def)
  have "u = 2 powi (binExp x) / 2 ^ 52" by (simp add: u_def power_int_diff)
  with binExp_lower [OF False] have ule: "u \<le> \<bar>x\<bar> / 2 ^ 52" by (simp add: divide_right_mono)
  have "fl x - x = (real_of_int (roundEven (x / u)) - x / u) * u"
    using False upos by (simp add: fl_def u_def [symmetric] Let_def algebra_simps)
  then have "\<bar>fl x - x\<bar> = \<bar>real_of_int (roundEven (x / u)) - x / u\<bar> * u"
    using upos by (simp add: abs_mult)
  also have "\<dots> \<le> (1 / 2) * u"
    using roundEven_close [of "x / u"] upos by (intro mult_right_mono) simp_all
  also have "\<dots> \<le> (1 / 2) * (\<bar>x\<bar> / 2 ^ 52)" using ule by simp
  also have "\<dots> = \<bar>x\<bar> / 2 ^ 53" by simp
  finally show ?thesis .
qed

lemma fl_bounds:
  assumes "0 \<le> x"
  shows "x * (1 - 1 / 2 ^ 53) \<le> fl x" and "fl x \<le> x * (1 + 1 / 2 ^ 53)"
proof -
  define d where "d = x / 2 ^ 53"
  from fl_error [of x] assms have "\<bar>fl x - x\<bar> \<le> d" by (simp add: d_def)
  then have b: "x - d \<le> fl x" "fl x \<le> x + d" by linarith+
  have "x * (1 - 1 / 2 ^ 53) = x - d" "x * (1 + 1 / 2 ^ 53) = x + d"
    by (simp_all add: d_def algebra_simps)
  with b show "x * (1 - 1 / 2 ^ 53) \<le> fl x" and "fl x \<le> x * (1 + 1 / 2 ^ 53)"
    by (simp_all only:)
qed

lemma fl_nonneg: "0 \<le> x \<Longrightarrow> 0 \<le> fl x"
proof -
  assume x: "0 \<le> x"
  then have "0 \<le> x * (1 - 1 / 2 ^ 53)" by (intro mult_nonneg_nonneg) simp_all
  with fl_bounds(1) [OF x] show ?thesis by linarith
qed

section \<open>The theme sampler\<close>

declare visitedFrom.simps [simp del] sampleLoop.simps [simp del]

lemma sampleLoop_sums:
  "sampleLoop data count i (r, g, b) =
     (r + channelSum data (visitedFrom i count) 0,
      g + channelSum data (visitedFrom i count) 1,
      b + channelSum data (visitedFrom i count) 2)"
proof (induction data count i "(r, g, b)" arbitrary: r g b rule: sampleLoop.induct)
  case (1 data count i r g b)
  show ?case
  proof (cases "i < count")
    case True
    then show ?thesis
      using "1.hyps" [OF True refl]
      by (subst sampleLoop.simps, subst (1 2 3) visitedFrom.simps)
         (simp add: channelSum_def Let_def)
  next
    case False
    then show ?thesis
      by (subst sampleLoop.simps, subst (1 2 3) visitedFrom.simps) (simp add: channelSum_def)
  qed
qed

lemma length_visitedFrom_step: "length (visitedFrom i count) = (count + 9 - i) div 10"
proof (induction i count rule: visitedFrom.induct)
  case (1 i count)
  show ?case
  proof (cases "i < count")
    case True
    with "1" have "length (visitedFrom i count) = Suc ((count + 9 - (i + 10)) div 10)"
      by (subst visitedFrom.simps) simp
    also have "\<dots> = (count + 9 - (i + 10) + 10) div 10" by simp
    also have "count + 9 - (i + 10) + 10 = count + 9 - i" using True by simp
    finally show ?thesis .
  next
    case False
    then show ?thesis by (subst visitedFrom.simps) simp
  qed
qed

text \<open>The loop visits \<open>\<lceil>count / 10\<rceil>\<close> pixels.\<close>

lemma length_visitedFrom: "length (visitedFrom 0 count) = (count + 9) div 10"
  by (simp add: length_visitedFrom_step)

lemma length_getImageData:
  "getImageData ctx sx sy sw sh = Inr data \<Longrightarrow> length data = 4 * sw * sh \<and> 0 < sw \<and> 0 < sh"
  by (auto simp: getImageData_def split: if_splits)

text \<open>
  The white canvas of 5 by 5 pixels: the band is the bottom row, the loop reads pixel 0
  only, and the quotients \<open>5 / 10 = 0.5\<close> and \<open>255 / 0.5 = 510\<close> are exact doubles.
\<close>

lemma white_5x5_band: "getImageData (whiteCanvas 5 5) 0 4 5 1 = Inr (replicate 20 255)"
  by code_simp

lemma white_5x5_sums: "sampleLoop (replicate 20 255) 5 0 (0, 0, 0) = (255, 255, 255)"
  by code_simp

lemma white_5x5_colour: "getDominantColor (whiteCanvas 5 5) 5 5 = Inr (510, 510, 510)"
proof -
  have "averageOf (replicate 20 255) = (510, 510, 510)"
    by (simp add: averageOf_def white_5x5_sums fl_eval)
  moreover have "getImageData (whiteCanvas 5 5) 0 4 5 (Suc 0) = Inr (replicate 20 255)"
    using white_5x5_band by simp
  ultimately show ?thesis by (simp add: getDominantColor_def)
qed

lemma white_5x5_mean: "sampledMean (replicate 20 255) = (255, 255, 255)"
  by code_simp

text \<open>
  The quotients are floored as doubles: a band of 11 pixels whose visited pixels sum to
  (33, 55, 66) is divided by the double nearest to 1.1, which is above 1.1, and gives
  (29, 49, 59) where the exact quotients are 30, 50 and 60.
\<close>

lemma averageOf_floors_the_double:
  "averageOf ([33, 55, 66, 255] @ replicate 40 0) = (29, 49, 59)"
proof -
  have "sampleLoop ([33, 55, 66, 255] @ replicate 40 0) 11 0 (0, 0, 0) = (33, 55, 66)"
    by code_simp
  moreover have "fl (11 / 10) = 2476979795053773 / 2251799813685248"
    by (simp add: fl_eval)
  ultimately show ?thesis
    by (simp add: averageOf_def) (simp add: fl_eval)
qed

text \<open>
  Claim C2: each channel of the sampler's result is the channel sum over the visited
  pixels divided by the number of pixels visited, truncated. The code divides by
  \<open>count / 10\<close> instead, which is that number only where \<open>count\<close> is a multiple of 10. On
  the white canvas of 5 by 5 pixels the band is the bottom row, 5 pixels (20 bytes); the
  loop visits pixel 0 only, the sum of each channel is 255, and the code returns
  \<open>\<lfloor>255 / 0.5\<rfloor> = 510\<close> where the mean of the visited pixels is 255.
\<close>

theorem getDominantColor_white_5x5:
  "getImageData (whiteCanvas 5 5) 0 4 5 1 = Inr (replicate 20 255) \<and>
   getDominantColor (whiteCanvas 5 5) 5 5 = Inr (510, 510, 510) \<and>
   sampledMean (replicate 20 255) = (255, 255, 255)"
  using white_5x5_band white_5x5_colour white_5x5_mean by simp

text \<open>
  Claim C9: there is a canvas whose band pixel count \<open>width * \<lfloor>height * 0.2\<rfloor>\<close> is not a
  multiple of 10 and for which the sampler returns a channel above 255: the divisor
  \<open>count / 10\<close> is smaller than the number of pixels summed, and nothing clamps the result.
\<close>

theorem getDominantColor_exceeds_255:
  "\<exists>ctx width height r g b.
     \<not> 10 dvd width * nat \<lfloor>real height * 0.2\<rfloor> \<and>
     getDominantColor ctx width height = Inr (r, g, b) \<and> 255 < r \<and>
     real (width * nat \<lfloor>real height * 0.2\<rfloor>) / 10
       < real (length (visitedFrom 0 (width * nat \<lfloor>real height * 0.2\<rfloor>)))"
proof -
  have "\<not> 10 dvd 5 * nat \<lfloor>real 5 * 0.2\<rfloor> \<and> (255::int) < 510 \<and>
     real (5 * nat \<lfloor>real 5 * 0.2\<rfloor>) / 10
       < real (length (visitedFrom 0 (5 * nat \<lfloor>real 5 * 0.2\<rfloor>)))"
    by code_simp
  with white_5x5_colour show ?thesis by blast
qed

section \<open>Cover fit\<close>

text \<open>
  With \<open>u\<close> the relative rounding error: a side \<open>d\<close> computed with two roundings from an
  exact \<open>X\<close> that is, up to the rounding of the two aspect ratios, at least \<open>W\<close>.
\<close>

lemma cover_bound:
  fixes u W X d :: real
  assumes u: "0 \<le> u" "u \<le> 1" and W: "0 \<le> W"
    and lo: "W * (1 - u) \<le> X * (1 + u)" and d: "X * (1 - u) * (1 - u) \<le> d"
  shows "W * (1 - 4 * u) \<le> d"
proof -
  have poly: "(1 - u) * (1 - u) * (1 - u) - (1 - 4 * u) * (1 + u) = u * u * (7 - u)"
    by (simp add: algebra_simps)
  have "0 \<le> u * u * (7 - u)" using u by (intro mult_nonneg_nonneg) simp_all
  with poly have p: "(1 - 4 * u) * (1 + u) \<le> (1 - u) * (1 - u) * (1 - u)" by linarith
  have "W * (1 - 4 * u) * (1 + u) = W * ((1 - 4 * u) * (1 + u))" by simp
  also have "\<dots> \<le> W * ((1 - u) * (1 - u) * (1 - u))" using p W by (rule mult_left_mono)
  also have "\<dots> = (W * (1 - u)) * ((1 - u) * (1 - u))" by simp
  also have "\<dots> \<le> (X * (1 + u)) * ((1 - u) * (1 - u))"
    using lo u by (intro mult_right_mono mult_nonneg_nonneg) simp_all
  also have "\<dots> = (X * (1 - u) * (1 - u)) * (1 + u)" by simp
  also have "\<dots> \<le> d * (1 + u)" using d u by (intro mult_right_mono) simp_all
  finally have "W * (1 - 4 * u) * (1 + u) \<le> d * (1 + u)" .
  moreover have "0 < 1 + u" using u by simp
  ultimately show ?thesis by (simp only: mult_le_cancel_right_pos)
qed

lemma fl_aspect_lower:
  fixes a b :: real
  assumes "0 \<le> a" and "0 \<le> b" and "fl b \<le> fl a"
  shows "b * (1 - 1 / 2 ^ 53) \<le> a * (1 + 1 / 2 ^ 53)"
  using fl_bounds(1) [OF assms(2)] fl_bounds(2) [OF assms(1)] assms(3) by linarith

lemma fl_scaled_lower:
  fixes s q :: real
  assumes "0 \<le> s" and "0 \<le> q"
  shows "s * q * (1 - 1 / 2 ^ 53) * (1 - 1 / 2 ^ 53) \<le> fl (s * fl q)"
proof -
  let ?v = "1 - 1 / 2 ^ 53 :: real"
  have v: "0 \<le> ?v" by simp
  have "q * ?v \<le> fl q" by (rule fl_bounds(1) [OF assms(2)])
  then have "s * (q * ?v) \<le> s * fl q" using assms(1) by (rule mult_left_mono)
  then have "s * (q * ?v) * ?v \<le> s * fl q * ?v" using v by (rule mult_right_mono)
  also have "s * fl q * ?v \<le> fl (s * fl q)"
    using assms fl_nonneg [OF assms(2)] by (intro fl_bounds(1) mult_nonneg_nonneg)
  finally show ?thesis by (simp only: mult.assoc)
qed

lemma scaled_side_covers:
  fixes s t c d :: real
  assumes pos: "0 < s" "0 < t" "0 \<le> c" "0 < d"
    and asp: "fl (c / d) \<le> fl (s / t)"
  shows "c * (1 - 4 / 2 ^ 53) \<le> fl (s * fl (d / t))"
proof -
  define u :: real where "u = 1 / 2 ^ 53"
  have u: "0 \<le> u" "u \<le> 1" by (simp_all add: u_def)
  define X where "X = s * (d / t)"
  have "(c / d) * (1 - u) \<le> (s / t) * (1 + u)"
    unfolding u_def using pos asp by (intro fl_aspect_lower) simp_all
  then have "(c / d) * (1 - u) * d \<le> (s / t) * (1 + u) * d"
    using pos(4) by (intro mult_right_mono) simp_all
  moreover have "(c / d) * (1 - u) * d = c * (1 - u)" using pos(4) by simp
  moreover have "(s / t) * (1 + u) * d = X * (1 + u)" by (simp add: X_def)
  ultimately have lo: "c * (1 - u) \<le> X * (1 + u)" by (simp only:)
  have "s * (d / t) * (1 - 1 / 2 ^ 53) * (1 - 1 / 2 ^ 53) \<le> fl (s * fl (d / t))"
    using pos by (intro fl_scaled_lower) simp_all
  then have d: "X * (1 - u) * (1 - u) \<le> fl (s * fl (d / t))" by (simp only: X_def u_def)
  have "c * (1 - 4 * u) \<le> fl (s * fl (d / t))"
    using u pos(3) lo d by (rule cover_bound)
  then show ?thesis by (simp add: u_def)
qed

lemma scaled_side_covers':
  fixes s t c d :: real
  assumes pos: "0 < s" "0 < t" "0 < c" "0 < d"
    and asp: "fl (t / s) \<le> fl (d / c)"
  shows "c * (1 - 4 / 2 ^ 53) \<le> fl (s * fl (d / t))"
proof -
  define u :: real where "u = 1 / 2 ^ 53"
  have u: "0 \<le> u" "u \<le> 1" by (simp_all add: u_def)
  define X where "X = s * (d / t)"
  have k: "0 < s * c / t" using pos by simp
  have "(t / s) * (1 - u) \<le> (d / c) * (1 + u)"
    unfolding u_def using pos asp by (intro fl_aspect_lower) simp_all
  then have "(t / s) * (1 - u) * (s * c / t) \<le> (d / c) * (1 + u) * (s * c / t)"
    using k by (intro mult_right_mono) simp_all
  moreover have "(t / s) * (1 - u) * (s * c / t) = c * (1 - u)" using pos by simp
  moreover have "(d / c) * (1 + u) * (s * c / t) = X * (1 + u)" using pos by (simp add: X_def)
  ultimately have lo: "c * (1 - u) \<le> X * (1 + u)" by (simp only:)
  have "s * (d / t) * (1 - 1 / 2 ^ 53) * (1 - 1 / 2 ^ 53) \<le> fl (s * fl (d / t))"
    using pos by (intro fl_scaled_lower) simp_all
  then have d: "X * (1 - u) * (1 - u) \<le> fl (s * fl (d / t))" by (simp only: X_def u_def)
  have "c * (1 - 4 * u) \<le> fl (s * fl (d / t))"
    using u _ lo d by (rule cover_bound) (use pos in simp)
  then show ?thesis by (simp add: u_def)
qed

lemma loose_side: "(c::real) \<ge> 0 \<Longrightarrow> c * (1 - 4 / 2 ^ 53) \<le> c"
  by (simp add: mult_left_le)

text \<open>
  Claim C3 says that in both cases \<open>drawWidth \<ge> canvasW\<close> and \<open>drawHeight \<ge> canvasH\<close>. In
  double arithmetic the scaled side can fall short. An image of 792 by 1408 has the aspect
  ratio of the canvas of 1080 by 1920, so the width is fitted; the height
  \<open>1408 * (1080 / 792)\<close> comes out as \<open>1920 - 2 ^ -42\<close> (printed 1919.9999999999998), below the
  canvas height, and \<open>offsetY\<close> as \<open>2 ^ -43\<close>, above 0.
\<close>

theorem coverFit_short_at_equal_aspect:
  "coverFit \<lparr>imgWidth = 792, imgHeight = 1408\<rparr> 1080 1920 =
     Some \<lparr>drawWidth = 1080, drawHeight = 8444249301319679 / 4398046511104,
           offsetX = 0, offsetY = 1 / 8796093022208\<rparr> \<and>
   (8444249301319679 / 4398046511104 :: real) < 1920 \<and>
   real 792 / real 1408 = real 1080 / real 1920"
  by (simp add: coverFit_def fl_eval)

text \<open>
  Claim C3, amended, in double arithmetic, for a source image with positive dimensions and
  a canvas of positive height, all of them integers below \<open>2 ^ 53\<close>. \<open>drawCover\<close> paints the black background and then draws the
  image into the rectangle of \<open>coverFit\<close>. If the rounded \<open>srcW / srcH\<close> is greater than the
  rounded \<open>canvasW / canvasH\<close>, the rectangle has height exactly \<open>canvasH\<close>, width
  \<open>srcW * (canvasH / srcH)\<close>, \<open>offsetX = (canvasW - drawWidth) / 2\<close> and \<open>offsetY = 0\<close>;
  otherwise width exactly \<open>canvasW\<close>, height \<open>srcH * (canvasW / srcW)\<close>,
  \<open>offsetY = (canvasH - drawHeight) / 2\<close> and \<open>offsetX = 0\<close>, each operation rounded. In both
  cases the rectangle covers the canvas up to rounding: \<open>drawWidth \<ge> canvasW * (1 - 2 ^ -51)\<close>
  and \<open>drawHeight \<ge> canvasH * (1 - 2 ^ -51)\<close>.
\<close>

theorem coverFit_covers:
  assumes "0 < imgWidth img" and "0 < imgHeight img" and "0 < targetHeight"
    and "imgWidth img < 2 ^ 53" and "imgHeight img < 2 ^ 53"
    and "targetWidth < 2 ^ 53" and "targetHeight < 2 ^ 53"
  shows "\<exists>p. coverFit img targetWidth targetHeight = Some p \<and>
     drawn (drawCover P img targetWidth targetHeight ctx) =
       drawn ctx @ [FillRect (Solid (Css ''#000'')) 0 0 (real targetWidth) (real targetHeight),
                    DrawImage img (offsetX p) (offsetY p) (drawWidth p) (drawHeight p)] \<and>
     (if fl (real (imgWidth img) / real (imgHeight img)) > fl (real targetWidth / real targetHeight)
      then drawHeight p = real targetHeight \<and>
           drawWidth p = fl (real (imgWidth img) * fl (real targetHeight / real (imgHeight img))) \<and>
           offsetX p = fl (fl (real targetWidth - drawWidth p) / 2) \<and> offsetY p = 0
      else drawWidth p = real targetWidth \<and>
           drawHeight p = fl (real (imgHeight img) * fl (real targetWidth / real (imgWidth img))) \<and>
           offsetY p = fl (fl (real targetHeight - drawHeight p) / 2) \<and> offsetX p = 0) \<and>
     real targetWidth * (1 - 4 / 2 ^ 53) \<le> drawWidth p \<and>
     real targetHeight * (1 - 4 / 2 ^ 53) \<le> drawHeight p"
proof (cases "fl (real (imgWidth img) / real (imgHeight img)) > fl (real targetWidth / real targetHeight)")
  case True
  define dW where "dW = fl (real (imgWidth img) * fl (real targetHeight / real (imgHeight img)))"
  define p where "p = \<lparr>drawWidth = dW, drawHeight = real targetHeight,
      offsetX = fl (fl (real targetWidth - dW) / 2), offsetY = 0\<rparr>"
  have fit: "coverFit img targetWidth targetHeight = Some p"
    using True assms(1-3) by (simp add: coverFit_def Let_def dW_def p_def)
  have ops: "drawn (drawCover P img targetWidth targetHeight ctx) =
       drawn ctx @ [FillRect (Solid (Css ''#000'')) 0 0 (real targetWidth) (real targetHeight),
                    DrawImage img (offsetX p) (offsetY p) (drawWidth p) (drawHeight p)]"
    by (simp add: drawCover_def fit fillRect_def drawImage_def Let_def)
  have "real targetWidth * (1 - 4 / 2 ^ 53) \<le> dW"
    unfolding dW_def using assms(1-3) True by (intro scaled_side_covers) simp_all
  moreover have "real targetHeight * (1 - 4 / 2 ^ 53) \<le> real targetHeight"
    by (rule loose_side) simp
  ultimately show ?thesis
    using True fit ops by (simp add: p_def dW_def)
next
  case False
  define dH where "dH = fl (real (imgHeight img) * fl (real targetWidth / real (imgWidth img)))"
  define p where "p = \<lparr>drawWidth = real targetWidth, drawHeight = dH,
      offsetX = 0, offsetY = fl (fl (real targetHeight - dH) / 2)\<rparr>"
  have fit: "coverFit img targetWidth targetHeight = Some p"
    using False assms(1-3) by (simp add: coverFit_def Let_def dH_def p_def)
  have ops: "drawn (drawCover P img targetWidth targetHeight ctx) =
       drawn ctx @ [FillRect (Solid (Css ''#000'')) 0 0 (real targetWidth) (real targetHeight),
                    DrawImage img (offsetX p) (offsetY p) (drawWidth p) (drawHeight p)]"
    by (simp add: drawCover_def fit fillRect_def drawImage_def Let_def)
  have asp: "fl (real (imgWidth img) / real (imgHeight img)) \<le> fl (real targetWidth / real targetHeight)"
    using False by simp
  have wpos: "0 < targetWidth"
  proof (rule ccontr)
    assume "\<not> 0 < targetWidth"
    then have z: "fl (real targetWidth / real targetHeight) = 0" by (simp add: fl_def)
    have "0 < real (imgWidth img) / real (imgHeight img)" using assms(1-3) by simp
    then have "0 < real (imgWidth img) / real (imgHeight img) * (1 - 1 / 2 ^ 53)" by simp
    also have "\<dots> \<le> fl (real (imgWidth img) / real (imgHeight img))"
      by (rule fl_bounds(1)) simp
    finally show False using asp z by simp
  qed
  have "real targetHeight * (1 - 4 / 2 ^ 53) \<le> dH"
    unfolding dH_def using assms(1-3) wpos asp by (intro scaled_side_covers') simp_all
  moreover have "real targetWidth * (1 - 4 / 2 ^ 53) \<le> real targetWidth"
    by (rule loose_side) simp
  ultimately show ?thesis
    using False fit ops by (simp add: p_def dH_def)
qed

theorem coverFit_covers_witness:
  "0 < imgWidth \<lparr>imgWidth = 1920, imgHeight = 1080\<rparr> \<and>
   0 < imgHeight \<lparr>imgWidth = 1920, imgHeight = 1080\<rparr> \<and> (0::nat) < 1920 \<and>
   imgWidth \<lparr>imgWidth = 1920, imgHeight = 1080\<rparr> < 2 ^ 53 \<and>
   imgHeight \<lparr>imgWidth = 1920, imgHeight = 1080\<rparr> < 2 ^ 53 \<and>
   (1080::nat) < 2 ^ 53 \<and> (1920::nat) < 2 ^ 53 \<and>
   (\<exists>p. coverFit \<lparr>imgWidth = 1920, imgHeight = 1080\<rparr> 1080 1920 = Some p \<and>
        drawHeight p = 1920 \<and>
        real 1080 * (1 - 4 / 2 ^ 53) \<le> drawWidth p \<and>
        real 1920 * (1 - 4 / 2 ^ 53) \<le> drawHeight p)"
proof -
  have h: "0 < imgWidth \<lparr>imgWidth = 1920, imgHeight = 1080\<rparr>"
    "0 < imgHeight \<lparr>imgWidth = 1920, imgHeight = 1080\<rparr>" "(0::nat) < 1920"
    "imgWidth \<lparr>imgWidth = 1920, imgHeight = 1080\<rparr> < 2 ^ 53"
    "imgHeight \<lparr>imgWidth = 1920, imgHeight = 1080\<rparr> < 2 ^ 53"
    "(1080::nat) < 2 ^ 53" "(1920::nat) < 2 ^ 53"
    by simp_all
  have a: "fl (real (imgWidth \<lparr>imgWidth = 1920, imgHeight = 1080\<rparr>) /
               real (imgHeight \<lparr>imgWidth = 1920, imgHeight = 1080\<rparr>)) > fl (real 1080 / real 1920)"
    by (simp add: fl_eval)
  from coverFit_covers [OF h, of "stubPlatform 1920 1080 1" "createCanvas 1080 1920"] a
  obtain p where "coverFit \<lparr>imgWidth = 1920, imgHeight = 1080\<rparr> 1080 1920 = Some p"
    and "drawHeight p = real 1920"
    and "real 1080 * (1 - 4 / 2 ^ 53) \<le> drawWidth p"
    and "real 1920 * (1 - 4 / 2 ^ 53) \<le> drawHeight p"
    by auto
  with h show ?thesis by auto
qed

section \<open>Gradient overlay\<close>

lemma overlayGradient_eq:
  "overlayGradient (r, g, b) targetHeight =
     \<lparr>gx0 = 0, gy0 = real targetHeight * 0.5, gx1 = 0, gy1 = real targetHeight,
      stops = [(0, Rgba (real_of_int r) (real_of_int g) (real_of_int b) 0),
               (0.6, Rgba (real_of_int r * 0.5) (real_of_int g * 0.5) (real_of_int b * 0.5) 0.8),
               (1, Rgba (real_of_int r * 0.2) (real_of_int g * 0.2) (real_of_int b * 0.2) 1)]\<rparr>"
  by (simp add: overlayGradient_def createLinearGradient_def addColorStop_def Let_def)

lemma overlay_strip_transparent:
  assumes "y \<le> real targetHeight * 0.5"
  shows "alpha (gradientColourAt (overlayGradient (r, g, b) targetHeight) y) = 0"
proof (cases "targetHeight = 0")
  case True
  then show ?thesis by (simp add: overlayGradient_eq gradientColourAt_def)
next
  case False
  then have "(y - real targetHeight * 0.5) / (real targetHeight - real targetHeight * 0.5) \<le> 0"
    using assms by (simp add: divide_le_0_iff)
  then show ?thesis
    using False by (simp add: overlayGradient_eq gradientColourAt_def)
qed

text \<open>
  Claim C5: the overlay gradient runs from \<open>y = canvasH * 0.5\<close> to \<open>y = canvasH\<close> and has
  exactly three stops: at 0 the theme colour with alpha 0, at 0.6 the theme colour with each
  channel times 0.5 and alpha 0.8, at 1 the theme colour with each channel times 0.2 and
  alpha 1. It is painted into the full-width rectangle from \<open>y = canvasH * 0.4\<close>, of height
  \<open>canvasH * 0.6\<close>, so down to \<open>canvasH\<close>. The strip of height \<open>0.1 * canvasH\<close> at the top of
  the rectangle lies before the first stop and is painted with alpha 0.
\<close>

theorem overlay_gradient_and_rectangle:
  "(let G = overlayGradient (r, g, b) targetHeight in
     addOverlay (r, g, b) targetWidth targetHeight ctx =
       ctx\<lparr>fillStyle := Linear G,
           drawn := drawn ctx @
             [FillRect (Linear G) 0 (real targetHeight * 0.4) (real targetWidth) (real targetHeight * 0.6)]\<rparr> \<and>
     G = \<lparr>gx0 = 0, gy0 = real targetHeight * 0.5, gx1 = 0, gy1 = real targetHeight,
          stops = [(0, Rgba (real_of_int r) (real_of_int g) (real_of_int b) 0),
                   (0.6, Rgba (real_of_int r * 0.5) (real_of_int g * 0.5) (real_of_int b * 0.5) 0.8),
                   (1, Rgba (real_of_int r * 0.2) (real_of_int g * 0.2) (real_of_int b * 0.2) 1)]\<rparr> \<and>
     real targetHeight * 0.4 + real targetHeight * 0.6 = real targetHeight \<and>
     real targetHeight * 0.5 - real targetHeight * 0.4 = 0.1 * real targetHeight \<and>
     (\<forall>y. real targetHeight * 0.4 \<le> y \<and> y \<le> real targetHeight * 0.5 \<longrightarrow>
          alpha (gradientColourAt G y) = 0))"
  unfolding Let_def
proof (intro conjI allI impI)
  show "addOverlay (r, g, b) targetWidth targetHeight ctx =
       ctx\<lparr>fillStyle := Linear (overlayGradient (r, g, b) targetHeight),
           drawn := drawn ctx @
             [FillRect (Linear (overlayGradient (r, g, b) targetHeight)) 0 (real targetHeight * 0.4)
                (real targetWidth) (real targetHeight * 0.6)]\<rparr>"
    by (simp add: addOverlay_def fillRect_def)
  show "overlayGradient (r, g, b) targetHeight =
     \<lparr>gx0 = 0, gy0 = real targetHeight * 0.5, gx1 = 0, gy1 = real targetHeight,
      stops = [(0, Rgba (real_of_int r) (real_of_int g) (real_of_int b) 0),
               (0.6, Rgba (real_of_int r * 0.5) (real_of_int g * 0.5) (real_of_int b * 0.5) 0.8),
               (1, Rgba (real_of_int r * 0.2) (real_of_int g * 0.2) (real_of_int b * 0.2) 1)]\<rparr>"
    by (rule overlayGradient_eq)
  show "real targetHeight * 0.4 + real targetHeight * 0.6 = real targetHeight" by simp
  show "real targetHeight * 0.5 - real targetHeight * 0.4 = 0.1 * real targetHeight" by simp
  fix y assume "real targetHeight * 0.4 \<le> y \<and> y \<le> real targetHeight * 0.5"
  then show "alpha (gradientColourAt (overlayGradient (r, g, b) targetHeight) y) = 0"
    by (simp add: overlay_strip_transparent)
qed

theorem overlay_gradient_and_rectangle_witness:
  "real 1920 * 0.4 \<le> (800::real) \<and> (800::real) \<le> real 1920 * 0.5 \<and>
   alpha (gradientColourAt (overlayGradient (200, 100, 50) 1920) 800) = 0 \<and>
   drawn (addOverlay (200, 100, 50) 1080 1920 (createCanvas 1080 1920)) =
     [FillRect (Linear (overlayGradient (200, 100, 50) 1920)) 0 768 1080 1152]"
proof -
  note t = overlay_gradient_and_rectangle
    [of 200 100 50 1920 1080 "createCanvas 1080 1920", unfolded Let_def]
  have y: "real 1920 * 0.4 \<le> (800::real) \<and> (800::real) \<le> real 1920 * 0.5" by simp
  from t have "\<forall>y. real 1920 * 0.4 \<le> y \<and> y \<le> real 1920 * 0.5 \<longrightarrow>
      alpha (gradientColourAt (overlayGradient (200, 100, 50) 1920) y) = 0"
    by blast
  with y have a: "alpha (gradientColourAt (overlayGradient (200, 100, 50) 1920) 800) = 0"
    by blast
  from t have "addOverlay (200, 100, 50) 1080 1920 (createCanvas 1080 1920) =
      (createCanvas 1080 1920)\<lparr>fillStyle := Linear (overlayGradient (200, 100, 50) 1920),
         drawn := drawn (createCanvas 1080 1920) @
           [FillRect (Linear (overlayGradient (200, 100, 50) 1920)) 0 (real 1920 * 0.4)
              (real 1080) (real 1920 * 0.6)]\<rparr>"
    by blast
  then have d: "drawn (addOverlay (200, 100, 50) 1080 1920 (createCanvas 1080 1920)) =
     [FillRect (Linear (overlayGradient (200, 100, 50) 1920)) 0 768 1080 1152]"
    by (simp add: createCanvas_def)
  from y a d show ?thesis by blast
qed

text \<open>
  Claim C6 says the channels of the middle and final stops are truncated to integers after
  scaling. They are not: for the theme (255, 255, 255) the middle stop carries 127.5 where
  truncation gives 127, and for (254, 254, 254) the final stop carries 50.8 where truncation
  gives 50.
\<close>

theorem gradient_stops_not_truncated:
  "stops (overlayGradient (255, 255, 255) 100) ! 1 = (0.6, Rgba 127.5 127.5 127.5 0.8) \<and>
   real_of_int \<lfloor>255 * 0.5 :: real\<rfloor> = 127 \<and>
   stops (overlayGradient (254, 254, 254) 100) ! 2 = (1, Rgba 50.8 50.8 50.8 1) \<and>
   real_of_int \<lfloor>254 * 0.2 :: real\<rfloor> = 50"
  by (simp add: overlayGradient_eq)

lemma exact_quotient:
  fixes r d :: int
  assumes "d \<noteq> 0"
  shows "(real_of_int r / real_of_int d = real_of_int (r div d)) = (d dvd r)"
proof
  assume "real_of_int r / real_of_int d = real_of_int (r div d)"
  then have "real_of_int r = real_of_int ((r div d) * d)"
    using assms by (simp add: field_simps)
  then have "r = (r div d) * d" by (simp only: of_int_eq_iff)
  then show "d dvd r" by (metis dvd_triv_right)
next
  assume "d dvd r"
  then show "real_of_int r / real_of_int d = real_of_int (r div d)"
    by (simp add: real_of_int_div)
qed

text \<open>
  Claim C6, amended: the channels of the middle and final stops are the products
  \<open>c * 0.5\<close> and \<open>c * 0.2\<close> themselves, written into the colour string unrounded; the middle
  one is an integer exactly for even \<open>c\<close>, the final one exactly for \<open>c\<close> a multiple of 5.
\<close>

theorem gradient_stops_unrounded:
  "stops (overlayGradient (r, g, b) targetHeight) =
     [(0, Rgba (real_of_int r) (real_of_int g) (real_of_int b) 0),
      (0.6, Rgba (real_of_int r * 0.5) (real_of_int g * 0.5) (real_of_int b * 0.5) 0.8),
      (1, Rgba (real_of_int r * 0.2) (real_of_int g * 0.2) (real_of_int b * 0.2) 1)] \<and>
   (real_of_int r * 0.5 = real_of_int \<lfloor>real_of_int r * 0.5 :: real\<rfloor>) = even r \<and>
   (real_of_int r * 0.2 = real_of_int \<lfloor>real_of_int r * 0.2 :: real\<rfloor>) = (5 dvd r)"
proof (intro conjI)
  show "stops (overlayGradient (r, g, b) targetHeight) =
     [(0, Rgba (real_of_int r) (real_of_int g) (real_of_int b) 0),
      (0.6, Rgba (real_of_int r * 0.5) (real_of_int g * 0.5) (real_of_int b * 0.5) 0.8),
      (1, Rgba (real_of_int r * 0.2) (real_of_int g * 0.2) (real_of_int b * 0.2) 1)]"
    by (simp add: overlayGradient_eq)
  show "(real_of_int r * 0.5 = real_of_int \<lfloor>real_of_int r * 0.5 :: real\<rfloor>) = even r"
    using exact_quotient [of 2 r] by (simp add: floor_divide_of_int_eq [of r 2, where ?'a = real, simplified])
  show "(real_of_int r * 0.2 = real_of_int \<lfloor>real_of_int r * 0.2 :: real\<rfloor>) = (5 dvd r)"
    using exact_quotient [of 5 r] by (simp add: floor_divide_of_int_eq [of r 5, where ?'a = real, simplified])
qed

section \<open>Title position\<close>

lemma foldl_fillText:
  "foldl (\<lambda>c (s, x, y). fillText s x y c) ctx L =
     ctx\<lparr>drawn := drawn ctx @
           map (\<lambda>(s, x, y). FillText (font ctx) (fillStyle ctx) (shadowBlur ctx) s x y) L\<rparr>"
proof (induction L arbitrary: ctx)
  case Nil
  show ?case by simp
next
  case (Cons a L)
  obtain s x y where a: "a = (s, x, y)" by (cases a) auto
  have step: "fillText s x y ctx =
      ctx\<lparr>drawn := drawn ctx @ [FillText (font ctx) (fillStyle ctx) (shadowBlur ctx) s x y]\<rparr>"
    by (simp add: fillText_def)
  have "foldl (\<lambda>c (s, x, y). fillText s x y c) ctx (a # L) =
        foldl (\<lambda>c (s, x, y). fillText s x y c) (fillText s x y ctx) L"
    by (simp add: a)
  also have "\<dots> = (fillText s x y ctx)\<lparr>drawn := drawn (fillText s x y ctx) @
           map (\<lambda>(s', x', y'). FillText (font (fillText s x y ctx)) (fillStyle (fillText s x y ctx))
                  (shadowBlur (fillText s x y ctx)) s' x' y') L\<rparr>"
    by (rule Cons.IH)
  finally show ?case by (simp add: step a)
qed

lemma wrapLines_nonempty: "wrapLines measureFn maxWidth ws \<noteq> []"
  by (simp add: wrapLines_def split: prod.splits)

lemma anchor_arith:
  fixes a lh :: real
  assumes "i < n"
  shows "a - (real n - 1) * lh + real i * lh = a - real (n - 1 - i) * lh"
proof -
  from assms have "real (n - 1 - i) = real n - 1 - real i" by (simp add: of_nat_diff)
  then show ?thesis by (simp add: algebra_simps)
qed

lemma titleLayout_eq:
  "titleLayout upper measureFn fontSizeName gameName targetWidth targetHeight =
     (let lines = wrapLines measureFn (real targetWidth * 0.9) (splitSpace (upper gameName));
          n = length lines
      in map (\<lambda>i. (trim (lines ! i), real targetWidth / 2,
                     real targetHeight - real targetHeight * 0.15
                       - real (n - 1 - i) * (real_of_int fontSizeName * 1.1)))
             [0 ..< n])"
proof -
  define lines where "lines = wrapLines measureFn (real targetWidth * 0.9) (splitSpace (upper gameName))"
  have "\<And>i. i < length lines \<Longrightarrow>
      real targetHeight - real targetHeight * 0.15 - (real (length lines) - 1) * (real_of_int fontSizeName * 1.1)
         + real i * (real_of_int fontSizeName * 1.1)
      = real targetHeight - real targetHeight * 0.15
         - real (length lines - 1 - i) * (real_of_int fontSizeName * 1.1)"
    by (rule anchor_arith)
  then show ?thesis
    unfolding titleLayout_def Let_def lines_def [symmetric]
    by (intro map_cong refl) simp
qed


text \<open>
  Claim C1: a title of more than 15 characters is drawn one line height higher than the
  line count alone gives. The code computes that shift (lines 157 to 159, "move up
  slightly") and then overwrites \<open>y\<close> at line 180, so the shift is lost: with a canvas of
  1000 by 1000, font size 120 and line height 132, a title of 16 characters on one line is
  drawn at \<open>y = 850\<close>, exactly where a title of 14 characters on one line is drawn, and not at
  \<open>850 - 132 = 718\<close>.
\<close>

theorem long_title_not_shifted:
  "length (str ''Sixteen letters!'') = 16 \<and>
   titleLayout asciiUpper (fixedWidth 1.2) 120 (str ''Sixteen letters!'') 1000 1000 =
     [(str ''SIXTEEN LETTERS!'', 500, 850)] \<and>
   length (str ''Fourteen chars'') = 14 \<and>
   titleLayout asciiUpper (fixedWidth 1.2) 120 (str ''Fourteen chars'') 1000 1000 =
     [(str ''FOURTEEN CHARS'', 500, 850)] \<and>
   \<lfloor>real 1000 * 0.12\<rfloor> = 120 \<and> real_of_int 120 * 1.1 = (132::real)"
proof -
  have u: "splitSpace (asciiUpper (str ''Sixteen letters!'')) = [str ''SIXTEEN'', str ''LETTERS!'']"
    "splitSpace (asciiUpper (str ''Fourteen chars'')) = [str ''FOURTEEN'', str ''CHARS'']"
    by code_simp+
  have t: "trim (str ''SIXTEEN LETTERS! '') = str ''SIXTEEN LETTERS!''"
    "trim (str ''FOURTEEN CHARS '') = str ''FOURTEEN CHARS''"
    by code_simp+
  have w: "wrapLines (fixedWidth (6 / 5)) 900 [str ''SIXTEEN'', str ''LETTERS!''] =
      [str ''SIXTEEN LETTERS! '']"
    "wrapLines (fixedWidth (6 / 5)) 900 [str ''FOURTEEN'', str ''CHARS''] = [str ''FOURTEEN CHARS '']"
    by (simp_all add: wrapLines_def fixedWidth_def str_def)
  have n: "length (str ''Sixteen letters!'') = 16" "length (str ''Fourteen chars'') = 14"
    by (simp_all add: str_def)
  show ?thesis
    by (simp add: titleLayout_def Let_def u t w n)
qed

section \<open>Canvas dimensions\<close>

lemma drawCover_dims:
  "cvWidth (drawCover P img w h ctx) = cvWidth ctx \<and> cvHeight (drawCover P img w h ctx) = cvHeight ctx"
  by (simp add: drawCover_def fillRect_def drawImage_def Let_def split: option.splits)

lemma addOverlay_dims:
  "cvWidth (addOverlay t w h ctx) = cvWidth ctx \<and> cvHeight (addOverlay t w h ctx) = cvHeight ctx"
  by (simp add: addOverlay_def fillRect_def Let_def)

lemma drawTitle_dims:
  "cvWidth (drawTitle P g w h ctx) = cvWidth ctx \<and> cvHeight (drawTitle P g w h ctx) = cvHeight ctx"
  by (simp add: drawTitle_def foldl_fillText Let_def)

lemma drawProvider_dims:
  "cvWidth (drawProvider P p w h ctx) = cvWidth ctx \<and> cvHeight (drawProvider P p w h ctx) = cvHeight ctx"
  by (simp add: drawProvider_def fillText_def Let_def)

lemma createCanvas_dims:
  "cvWidth (createCanvas w h) = w \<and> cvHeight (createCanvas w h) = h"
  by (simp add: createCanvas_def)

text \<open>Whenever the call returns an image, the image has the target size.\<close>

lemma compositeFinalImage_dims:
  assumes "compositeFinalImage P base64Image gameName providerName targetWidth targetHeight = Inr out"
  shows "pngWidth out = targetWidth \<and> pngHeight out = targetHeight"
  using assms
  by (auto simp: compositeFinalImage_def Let_def toDataURL_def drawProvider_dims drawTitle_dims
        addOverlay_dims drawCover_dims createCanvas_dims
      split: option.splits if_splits sum.splits)

lemma band_height_positive:
  assumes "5 \<le> height"
  shows "0 < nat \<lfloor>real height * 0.2\<rfloor>"
proof -
  from assms have "(1::real) \<le> real height * 0.2" by simp
  then have "1 \<le> \<lfloor>real height * 0.2\<rfloor>" by (simp only: le_floor_iff of_int_1)
  then show ?thesis by simp
qed

lemma getImageData_ok:
  assumes "0 < sw" and "0 < sh"
  shows "\<exists>d. getImageData ctx sx sy sw sh = Inr d"
  using assms by (simp add: getImageData_def)

lemma getImageData_zero:
  assumes "sw = 0 \<or> sh = 0"
  shows "getImageData ctx sx sy sw sh = Inl IndexSizeError"
  using assms by (simp add: getImageData_def)

lemma getDominantColor_succeeds:
  assumes "0 < width" and "5 \<le> height"
  shows "\<exists>t. getDominantColor ctx width height = Inr t"
proof -
  obtain d where "getImageData ctx 0 (height - nat \<lfloor>real height * 0.2\<rfloor>) width
      (nat \<lfloor>real height * 0.2\<rfloor>) = Inr d"
    using getImageData_ok [OF assms(1) band_height_positive [OF assms(2)]] by blast
  then have "getDominantColor ctx width height = Inr (averageOf d)"
    by (simp only: getDominantColor_def Let_def sum.case)
  then show ?thesis by blast
qed

lemma getDominantColor_fails:
  assumes "width = 0 \<or> height < 5"
  shows "getDominantColor ctx width height = Inl IndexSizeError"
proof -
  have "height < 5 \<Longrightarrow> nat \<lfloor>real height * 0.2\<rfloor> = 0"
  proof -
    assume "height < 5"
    then have "real height * 0.2 < 1" by simp
    then have "\<lfloor>real height * 0.2\<rfloor> < 1" by (simp only: floor_less_iff of_int_1)
    then show ?thesis by simp
  qed
  with assms have "width = 0 \<or> nat \<lfloor>real height * 0.2\<rfloor> = 0" by auto
  then have "getImageData ctx 0 (height - nat \<lfloor>real height * 0.2\<rfloor>) width
      (nat \<lfloor>real height * 0.2\<rfloor>) = Inl IndexSizeError"
    by (rule getImageData_zero)
  then show ?thesis
    by (simp only: getDominantColor_def Let_def sum.case)
qed

text \<open>
  With an image that loads and a context, the call fails exactly through the sampler: for a
  target width of 0 or a target height below 5 it rejects with \<open>IndexSizeError\<close>.
\<close>

lemma compositeFinalImage_fails:
  assumes "loadImage P base64Image = Some img" and "haveContext P"
    and "targetWidth = 0 \<or> targetHeight < 5"
  shows "compositeFinalImage P base64Image gameName providerName targetWidth targetHeight =
           Inl IndexSizeError"
  using assms(1,2) by (simp add: compositeFinalImage_def getDominantColor_fails [OF assms(3)])

text \<open>
  Claim C8 says that for all positive target dimensions the encoded output has the target
  size. With a target height below 5 there is no output: the sampled band has height
  \<open>\<lfloor>height * 0.2\<rfloor> = 0\<close>, \<open>getImageData\<close> raises \<open>IndexSizeError\<close> and the promise rejects.
  Here the target is 10 by 4.
\<close>

theorem no_output_below_height_5:
  "compositeFinalImage (stubPlatform 4 4 1) [] [] [] 10 4 = Inl IndexSizeError"
  by (simp add: compositeFinalImage_def stubPlatform_def getDominantColor_fails)

text \<open>
  Claim C8, amended: for every target width of at least 1 and target height of at least 5,
  with an image that loads and a 2D context, the canvas is created with the target width
  and height, none of the stages that write to it (cover fit, overlay, title, provider)
  changes its width or height, and the call returns an encoded image of exactly the target
  width and height.
\<close>

theorem canvas_dimensions_fixed:
  assumes "loadImage P base64Image = Some img" and "haveContext P"
    and "0 < targetWidth" and "5 \<le> targetHeight"
  shows "cvWidth (createCanvas targetWidth targetHeight) = targetWidth \<and>
     cvHeight (createCanvas targetWidth targetHeight) = targetHeight \<and>
     (\<forall>ctx themeColor.
        cvWidth (drawCover P img targetWidth targetHeight ctx) = cvWidth ctx \<and>
        cvHeight (drawCover P img targetWidth targetHeight ctx) = cvHeight ctx \<and>
        cvWidth (addOverlay themeColor targetWidth targetHeight ctx) = cvWidth ctx \<and>
        cvHeight (addOverlay themeColor targetWidth targetHeight ctx) = cvHeight ctx \<and>
        cvWidth (drawTitle P gameName targetWidth targetHeight ctx) = cvWidth ctx \<and>
        cvHeight (drawTitle P gameName targetWidth targetHeight ctx) = cvHeight ctx \<and>
        cvWidth (drawProvider P providerName targetWidth targetHeight ctx) = cvWidth ctx \<and>
        cvHeight (drawProvider P providerName targetWidth targetHeight ctx) = cvHeight ctx) \<and>
     (\<exists>out. compositeFinalImage P base64Image gameName providerName targetWidth targetHeight = Inr out \<and>
        pngWidth out = targetWidth \<and> pngHeight out = targetHeight)"
proof -
  obtain t where t: "getDominantColor (drawCover P img targetWidth targetHeight
      (createCanvas targetWidth targetHeight)) targetWidth targetHeight = Inr t"
    using getDominantColor_succeeds [OF assms(3,4)] by blast
  have "\<exists>out. compositeFinalImage P base64Image gameName providerName targetWidth targetHeight = Inr out"
    using assms(1,2) t by (simp add: compositeFinalImage_def Let_def)
  then have "\<exists>out. compositeFinalImage P base64Image gameName providerName targetWidth targetHeight = Inr out \<and>
        pngWidth out = targetWidth \<and> pngHeight out = targetHeight"
    using compositeFinalImage_dims by blast
  then show ?thesis
    by (simp add: createCanvas_dims drawCover_dims addOverlay_dims drawTitle_dims drawProvider_dims)
qed

theorem canvas_dimensions_fixed_witness:
  "loadImage (stubPlatform 1920 1080 0.6) ''x'' = Some \<lparr>imgWidth = 1920, imgHeight = 1080\<rparr> \<and>
   haveContext (stubPlatform 1920 1080 0.6) \<and> (0::nat) < 1080 \<and> (5::nat) \<le> 1920 \<and>
   (\<exists>out. compositeFinalImage (stubPlatform 1920 1080 0.6) ''x'' (str ''Super Gold Quest'')
             (str ''Acme Games'') 1080 1920 = Inr out \<and> pngWidth out = 1080 \<and> pngHeight out = 1920)"
proof -
  have l: "loadImage (stubPlatform 1920 1080 0.6) ''x'' = Some \<lparr>imgWidth = 1920, imgHeight = 1080\<rparr>"
    and c: "haveContext (stubPlatform 1920 1080 0.6)"
    by (simp_all add: stubPlatform_def)
  have w: "(0::nat) < 1080" and h: "(5::nat) \<le> 1920" by simp_all
  from canvas_dimensions_fixed [OF l c w h, of "str ''Super Gold Quest''" "str ''Acme Games''"] l c w h
  show ?thesis by blast
qed

section \<open>Word wrap\<close>

lemma render_Nil: "render [] = []"
  by (simp add: render_def)

lemma render_Cons: "render (w # ws) = w @ [spaceChar] @ render ws"
  by (simp add: render_def)

lemma render_append: "render (xs @ ys) = render xs @ render ys"
  by (simp add: render_def)

lemma render_snoc: "render (cur @ [w]) = render cur @ w @ [spaceChar]"
  by (simp add: render_def)

lemma wrapLoop_greedy:
  assumes "0 < n"
  shows "(case wrapLoop measureFn maxWidth ws n lines (render cur) of (ls, l) \<Rightarrow> ls @ [l]) =
           lines @ map render (greedyFrom measureFn maxWidth cur ws)"
  using assms
proof (induction ws arbitrary: n lines cur)
  case Nil
  show ?case by simp
next
  case (Cons w ws)
  have single: "w @ [spaceChar] = render [w]" by (simp add: render_def)
  show ?case
  proof (cases "measureFn (render (cur @ [w])) > maxWidth")
    case True
    have "(case wrapLoop measureFn maxWidth (w # ws) n lines (render cur) of (ls, l) \<Rightarrow> ls @ [l]) =
          (case wrapLoop measureFn maxWidth ws (n + 1) (lines @ [render cur]) (render [w]) of (ls, l) \<Rightarrow> ls @ [l])"
      using True Cons.prems by (simp add: render_snoc Let_def single [symmetric])
    also have "\<dots> = (lines @ [render cur]) @ map render (greedyFrom measureFn maxWidth [w] ws)"
      by (rule Cons.IH) simp
    finally show ?thesis using True by simp
  next
    case False
    have "(case wrapLoop measureFn maxWidth (w # ws) n lines (render cur) of (ls, l) \<Rightarrow> ls @ [l]) =
          (case wrapLoop measureFn maxWidth ws (n + 1) lines (render (cur @ [w])) of (ls, l) \<Rightarrow> ls @ [l])"
      using False by (simp add: render_snoc Let_def)
    also have "\<dots> = lines @ map render (greedyFrom measureFn maxWidth (cur @ [w]) ws)"
      by (rule Cons.IH) simp
    finally show ?thesis using False by simp
  qed
qed

text \<open>The loop of the source computes the greedy wrap of the specification.\<close>

lemma wrapLines_greedy:
  "wrapLines measureFn maxWidth words = map render (greedyWrap measureFn maxWidth words)"
proof (cases words)
  case Nil
  then show ?thesis by (simp add: wrapLines_def render_def)
next
  case (Cons w ws)
  have "wrapLoop measureFn maxWidth (w # ws) 0 [] [] = wrapLoop measureFn maxWidth ws 1 [] (render [w])"
    by (simp add: render_def Let_def)
  then have "wrapLines measureFn maxWidth (w # ws) =
      (case wrapLoop measureFn maxWidth ws 1 [] (render [w]) of (ls, l) \<Rightarrow> ls @ [l])"
    by (simp add: wrapLines_def)
  also have "\<dots> = [] @ map render (greedyFrom measureFn maxWidth [w] ws)"
    by (rule wrapLoop_greedy) simp
  finally show ?thesis using Cons by simp
qed

lemma greedyFrom_nonempty: "greedyFrom measureFn maxWidth cur ws \<noteq> []"
  by (induction ws arbitrary: cur) auto

lemma concat_greedyFrom: "concat (greedyFrom measureFn maxWidth cur ws) = cur @ ws"
  by (induction ws arbitrary: cur) auto

lemma greedyFrom_groups_nonempty:
  "cur \<noteq> [] \<Longrightarrow> g \<in> set (greedyFrom measureFn maxWidth cur ws) \<Longrightarrow> g \<noteq> []"
  by (induction ws arbitrary: cur) (auto split: if_splits)

lemma greedyFrom_fits:
  "length cur = 1 \<or> measureFn (render cur) \<le> maxWidth \<Longrightarrow>
   g \<in> set (greedyFrom measureFn maxWidth cur ws) \<Longrightarrow>
   length g = 1 \<or> measureFn (render g) \<le> maxWidth"
proof (induction ws arbitrary: cur)
  case Nil
  then show ?case by auto
next
  case (Cons w ws)
  show ?case
  proof (cases "measureFn (render (cur @ [w])) > maxWidth")
    case True
    with Cons.prems have "g = cur \<or> g \<in> set (greedyFrom measureFn maxWidth [w] ws)" by simp
    then show ?thesis
    proof
      assume "g = cur" with Cons.prems(1) show ?thesis by simp
    next
      assume "g \<in> set (greedyFrom measureFn maxWidth [w] ws)"
      then show ?thesis by (rule Cons.IH [rotated]) simp
    qed
  next
    case False
    with Cons.prems have "g \<in> set (greedyFrom measureFn maxWidth (cur @ [w]) ws)" by simp
    then show ?thesis using False by (intro Cons.IH [of "cur @ [w]"]) auto
  qed
qed

lemma greedyFrom_single:
  "greedyFrom measureFn maxWidth cur ws = [g] \<Longrightarrow> ws \<noteq> [] \<Longrightarrow>
   measureFn (render (cur @ ws)) \<le> maxWidth"
proof (induction ws arbitrary: cur)
  case Nil
  then show ?case by simp
next
  case (Cons w ws)
  show ?case
  proof (cases "measureFn (render (cur @ [w])) > maxWidth")
    case True
    with Cons.prems(1) have "greedyFrom measureFn maxWidth [w] ws = []" by simp
    then show ?thesis by (simp add: greedyFrom_nonempty)
  next
    case False
    with Cons.prems(1) have g: "greedyFrom measureFn maxWidth (cur @ [w]) ws = [g]" by simp
    show ?thesis
    proof (cases "ws = []")
      case True
      with False show ?thesis by simp
    next
      case False
      from Cons.IH [OF g False] show ?thesis by simp
    qed
  qed
qed

lemma render_splitAcc: "render (splitAcc cur s) = cur @ s @ [spaceChar]"
  by (induction s arbitrary: cur) (auto simp: render_def)

lemma render_splitSpace: "render (splitSpace s) = s @ [spaceChar]"
  by (simp add: splitSpace_def render_splitAcc)

lemma splitAcc_nonempty: "splitAcc cur s \<noteq> []"
  by (induction s arbitrary: cur) auto

lemma splitSpace_nonempty: "splitSpace s \<noteq> []"
  by (simp add: splitSpace_def splitAcc_nonempty)

lemma concat_map_render: "concat (map render G) = render (concat G)"
  by (induction G) (simp_all add: render_Nil render_append)

lemma concat_greedyWrap: "words \<noteq> [] \<Longrightarrow> concat (greedyWrap measureFn maxWidth words) = words"
  by (cases words) (simp_all add: concat_greedyFrom)

lemma wrapLines_concat:
  "concat (wrapLines measureFn maxWidth (splitSpace s)) = s @ [spaceChar]"
  by (simp add: wrapLines_greedy concat_map_render concat_greedyWrap splitSpace_nonempty
      render_splitSpace)

lemma wrapLines_fits:
  assumes "l \<in> set (wrapLines measureFn maxWidth words)" and "words \<noteq> []"
  shows "measureFn l \<le> maxWidth \<or> (\<exists>w \<in> set words. l = w @ [spaceChar])"
proof -
  obtain w ws where words: "words = w # ws" using assms(2) by (cases words) auto
  from assms(1) obtain g where g: "g \<in> set (greedyFrom measureFn maxWidth [w] ws)" and l: "l = render g"
    by (auto simp: wrapLines_greedy words)
  from greedyFrom_fits [OF _ g] have "length g = 1 \<or> measureFn (render g) \<le> maxWidth" by simp
  then show ?thesis
  proof
    assume "length g = 1"
    then obtain x where x: "g = [x]" by (cases g) auto
    from g have "set g \<subseteq> set (concat (greedyFrom measureFn maxWidth [w] ws))" by auto
    then have "x \<in> set words" by (simp add: concat_greedyFrom words x)
    then show ?thesis by (auto simp: l x render_def)
  next
    assume "measureFn (render g) \<le> maxWidth"
    then show ?thesis by (simp add: l)
  qed
qed

lemma wrapLines_breaks:
  assumes "2 \<le> length words" and "maxWidth < measureFn (render words)"
  shows "1 < length (wrapLines measureFn maxWidth words)"
proof (rule ccontr)
  assume "\<not> 1 < length (wrapLines measureFn maxWidth words)"
  obtain w ws where words: "words = w # ws" and ws: "ws \<noteq> []"
  proof (cases words)
    case Nil
    with assms(1) show ?thesis by simp
  next
    case (Cons a list)
    with assms(1) have "list \<noteq> []" by auto
    with Cons that show ?thesis by blast
  qed
  have "length (greedyFrom measureFn maxWidth [w] ws) \<le> 1"
    using \<open>\<not> 1 < length (wrapLines measureFn maxWidth words)\<close>
    by (simp add: wrapLines_greedy words)
  then obtain g where "greedyFrom measureFn maxWidth [w] ws = [g]"
    using greedyFrom_nonempty [of measureFn maxWidth "[w]" ws]
    by (cases "greedyFrom measureFn maxWidth [w] ws") auto
  from greedyFrom_single [OF this ws] have "measureFn (render (w # ws)) \<le> maxWidth" by simp
  with assms(2) show False by (simp add: words)
qed

lemma wrapLines_single: "wrapLines measureFn maxWidth [w] = [w @ [spaceChar]]"
  by (simp add: wrapLines_def)

lemma splitSpace_single:
  assumes "length (splitSpace s) = 1"
  shows "splitSpace s = [s]"
proof -
  from assms obtain w where w: "splitSpace s = [w]" by (cases "splitSpace s") auto
  have "render (splitSpace s) = s @ [spaceChar]" by (rule render_splitSpace)
  then have "w = s" by (simp add: w render_def)
  with w show ?thesis by simp
qed

lemma map_nth_trim: "map (\<lambda>i. trim (xs ! i)) [0 ..< length xs] = map trim xs"
  by (rule nth_equalityI) simp_all

lemma titleLayout_texts:
  "map fst (titleLayout upper measureFn fontSizeName gameName targetWidth targetHeight) =
     map trim (wrapLines measureFn (real targetWidth * 0.9) (splitSpace (upper gameName)))"
  unfolding titleLayout_eq Let_def map_map comp_def fst_conv
  by (rule map_nth_trim)

text \<open>
  Claim C4 says that a title whose measured width exceeds \<open>0.9 * canvasWidth\<close> is wrapped
  into more than one line, and that a line is committed whenever the next word would make
  the line too wide. A title of one word that is wider than the limit stays one line: the
  test of the loop carries \<open>n > 0\<close>, so the first word never commits a line. Here the canvas
  is 100 wide and every character 20.
\<close>

theorem single_wide_word_one_line:
  "real 100 * 0.9 < fixedWidth 20 (asciiUpper (str ''Jackpot'')) \<and>
   wrapLines (fixedWidth 20) (real 100 * 0.9) (splitSpace (asciiUpper (str ''Jackpot''))) =
     [str ''JACKPOT '']"
proof -
  have u: "asciiUpper (str ''Jackpot'') = str ''JACKPOT''"
    "splitSpace (str ''JACKPOT'') = [str ''JACKPOT'']"
    by code_simp+
  show ?thesis by (simp add: u wrapLines_single fixedWidth_def) (simp add: str_def)
qed

text \<open>
  Claim C4, amended. The title is upper-cased and split at spaces. The first word starts
  the first line; each later word is appended (with a trailing space) unless the line with
  it measures more than \<open>canvasWidth * 0.9\<close>, in which case the current line is committed
  and the word starts a new one; the last line is always committed (a title whose
  upper-cased form is empty, as the empty title's is, gives the one line of a single space,
  drawn as the empty string). So the lines are never empty as a list and hold every word
  once, in order; every line either measures at most the limit (with its trailing space)
  or is a single word; a title of at least two words whose measured width (with trailing
  space) exceeds the limit gives more than one line; a title of one word gives one line
  whatever its width. The texts drawn are the trimmed lines. This holds for every
  \<open>measureText\<close> and every \<open>toUpperCase\<close>.
\<close>

theorem word_wrap_greedy:
  "(let words = splitSpace (upper gameName);
        maxWidth = real targetWidth * 0.9;
        lines = wrapLines measureFn maxWidth words
    in lines = map render (greedyWrap measureFn maxWidth words) \<and>
       lines \<noteq> [] \<and> concat lines = upper gameName @ [spaceChar] \<and>
       (upper gameName = [] \<longrightarrow> lines = [[spaceChar]]) \<and>
       (\<forall>l \<in> set lines. measureFn l \<le> maxWidth \<or> (\<exists>w \<in> set words. l = w @ [spaceChar])) \<and>
       (2 \<le> length words \<and> maxWidth < measureFn (upper gameName @ [spaceChar]) \<longrightarrow> 1 < length lines) \<and>
       (length words = 1 \<longrightarrow> lines = [upper gameName @ [spaceChar]]) \<and>
       map fst (titleLayout upper measureFn fontSizeName gameName targetWidth targetHeight) =
         map trim lines)"
  unfolding Let_def
proof (intro conjI impI ballI)
  let ?words = "splitSpace (upper gameName)"
  let ?maxWidth = "real targetWidth * 0.9"
  let ?lines = "wrapLines measureFn ?maxWidth ?words"
  show "?lines = map render (greedyWrap measureFn ?maxWidth ?words)"
    by (rule wrapLines_greedy)
  show "?lines \<noteq> []" by (rule wrapLines_nonempty)
  show "concat ?lines = upper gameName @ [spaceChar]" by (rule wrapLines_concat)
  show "?lines = [[spaceChar]]" if "upper gameName = []"
    using that by (simp add: splitSpace_def wrapLines_def)
  show "measureFn l \<le> ?maxWidth \<or> (\<exists>w \<in> set ?words. l = w @ [spaceChar])" if "l \<in> set ?lines" for l
    using that by (rule wrapLines_fits) (rule splitSpace_nonempty)
  show "1 < length ?lines"
    if "2 \<le> length ?words \<and> ?maxWidth < measureFn (upper gameName @ [spaceChar])"
    using that by (intro wrapLines_breaks) (simp_all add: render_splitSpace)
  show "?lines = [upper gameName @ [spaceChar]]" if "length ?words = 1"
    using splitSpace_single [OF that] by (simp add: wrapLines_single)
  show "map fst (titleLayout upper measureFn fontSizeName gameName targetWidth targetHeight) =
      map trim ?lines"
    by (rule titleLayout_texts)
qed

theorem word_wrap_greedy_witness:
  "2 \<le> length (splitSpace (asciiUpper (str ''Super Gold Quest''))) \<and>
   real 1080 * 0.9 < fixedWidth 78 (asciiUpper (str ''Super Gold Quest'') @ [spaceChar]) \<and>
   1 < length (wrapLines (fixedWidth 78) (real 1080 * 0.9)
                 (splitSpace (asciiUpper (str ''Super Gold Quest'')))) \<and>
   str ''SUPER GOLD '' \<in> set (wrapLines (fixedWidth 78) (real 1080 * 0.9)
                 (splitSpace (asciiUpper (str ''Super Gold Quest'')))) \<and>
   fixedWidth 78 (str ''SUPER GOLD '') \<le> real 1080 * 0.9"
proof -
  have u: "asciiUpper (str ''Super Gold Quest'') = str ''SUPER GOLD QUEST''"
    "splitSpace (str ''SUPER GOLD QUEST'') = [str ''SUPER'', str ''GOLD'', str ''QUEST'']"
    by code_simp+
  have h: "2 \<le> length (splitSpace (asciiUpper (str ''Super Gold Quest''))) \<and>
      real 1080 * 0.9 < fixedWidth 78 (asciiUpper (str ''Super Gold Quest'') @ [spaceChar])"
    by (simp add: u fixedWidth_def) (simp add: str_def)
  have w: "wrapLines (fixedWidth 78) (real 1080 * 0.9)
             (splitSpace (asciiUpper (str ''Super Gold Quest''))) =
      [str ''SUPER GOLD '', str ''QUEST '']"
    by (simp only: u) (simp add: wrapLines_def fixedWidth_def str_def)
  from word_wrap_greedy [where gameName = "str ''Super Gold Quest''" and upper = asciiUpper
      and measureFn = "fixedWidth 78" and targetWidth = 1080 and fontSizeName = 129
      and targetHeight = 1920, unfolded Let_def] h
  have "1 < length (wrapLines (fixedWidth 78) (real 1080 * 0.9)
                 (splitSpace (asciiUpper (str ''Super Gold Quest''))))"
    by blast
  with h w show ?thesis by (simp add: fixedWidth_def str_def)
qed

section \<open>Trimmed lines\<close>

lemma render_joinSpace: "ws \<noteq> [] \<Longrightarrow> render ws = joinSpace ws @ [spaceChar]"
  by (induction ws rule: joinSpace.induct) (simp_all add: render_def)

lemma joinSpace_splitSpace: "joinSpace (splitSpace s) = s"
  using render_joinSpace [OF splitSpace_nonempty, of s] by (simp add: render_splitSpace)

lemma joinSpace_groups:
  assumes "G \<noteq> []" and "\<forall>g \<in> set G. g \<noteq> []"
  shows "joinSpace (map joinSpace G) = joinSpace (concat G)"
proof -
  have "map (\<lambda>g. joinSpace g @ [spaceChar]) G = map render G"
    using assms(2) by (simp add: render_joinSpace)
  moreover have "render (map joinSpace G) = concat (map (\<lambda>g. joinSpace g @ [spaceChar]) G)"
    unfolding render_def map_map comp_def ..
  ultimately have "render (map joinSpace G) = concat (map render G)"
    by (simp only:)
  also have "\<dots> = render (concat G)" by (rule concat_map_render)
  finally have r: "render (map joinSpace G) = render (concat G)" .
  from assms have "concat G \<noteq> []" by (cases G) auto
  with r assms(1) show ?thesis by (simp add: render_joinSpace)
qed

lemma joinSpace_eq_Nil: "(joinSpace ws = []) = (ws = [] \<or> ws = [[]])"
  by (induction ws rule: joinSpace.induct) simp_all

lemma hd_joinSpace: "ws \<noteq> [] \<Longrightarrow> hd ws \<noteq> [] \<Longrightarrow> hd (joinSpace ws) = hd (hd ws)"
  by (induction ws rule: joinSpace.induct) simp_all

lemma last_joinSpace: "ws \<noteq> [] \<Longrightarrow> last ws \<noteq> [] \<Longrightarrow> last (joinSpace ws) = last (last ws)"
  by (induction ws rule: joinSpace.induct) (auto simp: joinSpace_eq_Nil)

lemma joinSpace_nonempty: "ws \<noteq> [] \<Longrightarrow> hd ws \<noteq> [] \<Longrightarrow> joinSpace ws \<noteq> []"
  by (auto simp: joinSpace_eq_Nil)

lemma trim_trailing_space:
  assumes "x \<noteq> []" and "\<not> isWhiteSpace (hd x)" and "\<not> isWhiteSpace (last x)"
  shows "trim (x @ [spaceChar]) = x"
proof -
  from assms(1,2) have a: "dropWhile isWhiteSpace (x @ [spaceChar]) = x @ [spaceChar]"
    by (cases x) simp_all
  have sp: "isWhiteSpace spaceChar" by (simp add: isWhiteSpace_def)
  from assms(1,3) have b: "dropWhile isWhiteSpace (rev x) = rev x"
    by (cases "rev x") (simp_all add: last_rev [symmetric] hd_rev)
  show ?thesis by (simp add: trim_def a sp b)
qed

lemma trim_render:
  assumes "g \<noteq> []" and "cleanWord (hd g)" and "cleanWord (last g)"
  shows "trim (render g) = joinSpace g"
proof -
  from assms have "joinSpace g \<noteq> []"
    and "\<not> isWhiteSpace (hd (joinSpace g))" and "\<not> isWhiteSpace (last (joinSpace g))"
    by (simp_all add: cleanWord_def joinSpace_nonempty hd_joinSpace last_joinSpace)
  then have "trim (joinSpace g @ [spaceChar]) = joinSpace g" by (rule trim_trailing_space)
  with assms(1) show ?thesis by (simp add: render_joinSpace)
qed

lemma greedyWrap_groups_nonempty:
  assumes "words \<noteq> []" and "g \<in> set (greedyWrap measureFn maxWidth words)"
  shows "g \<noteq> [] \<and> set g \<subseteq> set words"
proof -
  obtain w ws where words: "words = w # ws" using assms(1) by (cases words) auto
  from assms(2) have g: "g \<in> set (greedyFrom measureFn maxWidth [w] ws)" by (simp add: words)
  then have "g \<noteq> []" by (rule greedyFrom_groups_nonempty [rotated]) simp
  moreover from g have "set g \<subseteq> set (concat (greedyFrom measureFn maxWidth [w] ws))" by auto
  then have "set g \<subseteq> set words" by (simp add: concat_greedyFrom words)
  ultimately show ?thesis by blast
qed

lemma trimmed_lines_rejoin:
  assumes "\<forall>w \<in> set words. cleanWord w" and "words \<noteq> []"
  shows "map trim (wrapLines measureFn maxWidth words) = map joinSpace (greedyWrap measureFn maxWidth words)"
proof -
  have "trim (render g) = joinSpace g" if "g \<in> set (greedyWrap measureFn maxWidth words)" for g
  proof -
    from greedyWrap_groups_nonempty [OF assms(2) that] have g: "g \<noteq> []" "set g \<subseteq> set words"
      by blast+
    then have "hd g \<in> set words" "last g \<in> set words" by auto
    with assms(1) g(1) show ?thesis by (intro trim_render) auto
  qed
  then show ?thesis by (simp add: wrapLines_greedy)
qed

text \<open>
  Claim C10 says that for a title whose words are separated by single spaces, with no
  leading or trailing space, the trimmed lines joined by single spaces are the upper-cased
  title. \<open>trim\<close> removes more than spaces: the title of a tab followed by the letter a is
  one word, has no space at either end, and is drawn as the single line \<open>A\<close>, without the
  tab.
\<close>

theorem leading_tab_is_trimmed:
  "splitSpace (0x0009 # str ''a'') = [0x0009 # str ''a''] \<and>
   hd (0x0009 # str ''a'') \<noteq> spaceChar \<and> last (0x0009 # str ''a'') \<noteq> spaceChar \<and>
   asciiUpper (0x0009 # str ''a'') = 0x0009 # str ''A'' \<and>
   joinSpace (map fst (titleLayout asciiUpper (fixedWidth 1) 12 (0x0009 # str ''a'') 100 100)) =
     str ''A''"
proof -
  have s: "splitSpace (0x0009 # str ''a'') = [0x0009 # str ''a'']"
    and u: "asciiUpper (0x0009 # str ''a'') = 0x0009 # str ''A''"
    and s': "splitSpace (0x0009 # str ''A'') = [0x0009 # str ''A'']"
    and t: "trim ((0x0009 # str ''A'') @ [spaceChar]) = str ''A''"
    by code_simp+
  have "map fst (titleLayout asciiUpper (fixedWidth 1) 12 (0x0009 # str ''a'') 100 100) = [str ''A'']"
    by (simp only: titleLayout_texts u s' wrapLines_single t list.map)
  with s u show ?thesis by (simp add: str_def)
qed

text \<open>
  The same with any other character that \<open>trim\<close> removes, such as the no-break space.
\<close>

lemma leading_no_break_space_is_trimmed:
  "map fst (titleLayout asciiUpper (fixedWidth 1) 12 (0x00A0 # str ''a'') 100 100) = [str ''A'']"
proof -
  have u: "asciiUpper (0x00A0 # str ''a'') = 0x00A0 # str ''A''"
    and s: "splitSpace (0x00A0 # str ''A'') = [0x00A0 # str ''A'']"
    and t: "trim ((0x00A0 # str ''A'') @ [spaceChar]) = str ''A''"
    by code_simp+
  show ?thesis
    by (simp only: titleLayout_texts u s wrapLines_single t list.map)
qed

text \<open>
  Claim C10, amended: for a title whose upper-cased form is empty, or has only non-empty
  words (the pieces between spaces) that neither begin nor end with a character that
  \<open>trim\<close> removes, the trimmed lines joined by single spaces are exactly the upper-cased
  title; the lines are the groups of a partition of the word list into consecutive groups,
  each group joined by single spaces, so every word is emitted once, in order, unsplit.
  This holds for every \<open>measureText\<close> and every \<open>toUpperCase\<close>.
\<close>

theorem wrapped_lines_rejoin:
  assumes "upper gameName = [] \<or> (\<forall>w \<in> set (splitSpace (upper gameName)). cleanWord w)"
  shows "joinSpace (map fst (titleLayout upper measureFn fontSizeName gameName targetWidth targetHeight)) =
           upper gameName \<and>
         (\<exists>G. map fst (titleLayout upper measureFn fontSizeName gameName targetWidth targetHeight) =
                 map joinSpace G \<and>
              concat G = splitSpace (upper gameName))"
proof (cases "upper gameName = []")
  case True
  have t: "trim [spaceChar] = []" by (simp add: trim_def isWhiteSpace_def)
  have l: "map fst (titleLayout upper measureFn fontSizeName gameName targetWidth targetHeight) = [[]]"
    by (simp add: titleLayout_texts True splitSpace_def wrapLines_def t)
  have "map fst (titleLayout upper measureFn fontSizeName gameName targetWidth targetHeight) =
      map joinSpace [[[]]] \<and> concat [[[]]] = splitSpace (upper gameName)"
    by (simp add: l True splitSpace_def)
  then have "\<exists>G. map fst (titleLayout upper measureFn fontSizeName gameName targetWidth targetHeight) =
      map joinSpace G \<and> concat G = splitSpace (upper gameName)"
    by blast
  with True l show ?thesis by simp
next
  case False
  let ?words = "splitSpace (upper gameName)"
  let ?G = "greedyWrap measureFn (real targetWidth * 0.9) ?words"
  from False assms have clean: "\<forall>w \<in> set ?words. cleanWord w" by blast
  have ne: "?words \<noteq> []" by (rule splitSpace_nonempty)
  have texts: "map fst (titleLayout upper measureFn fontSizeName gameName targetWidth targetHeight) =
      map joinSpace ?G"
    by (simp only: titleLayout_texts trimmed_lines_rejoin [OF clean ne])
  have cG: "concat ?G = ?words" by (rule concat_greedyWrap [OF ne])
  have "?G \<noteq> []" using ne by (cases ?words) (simp_all add: greedyFrom_nonempty)
  moreover have "\<forall>g \<in> set ?G. g \<noteq> []"
    using greedyWrap_groups_nonempty [OF ne] by blast
  ultimately have "joinSpace (map joinSpace ?G) = joinSpace (concat ?G)"
    by (rule joinSpace_groups)
  then have "joinSpace (map joinSpace ?G) = upper gameName"
    by (simp only: cG joinSpace_splitSpace)
  with texts cG show ?thesis by (simp only:) blast
qed

theorem wrapped_lines_rejoin_witness:
  "splitSpace (asciiUpper (str ''Super Gold Quest'')) = [str ''SUPER'', str ''GOLD'', str ''QUEST''] \<and>
   cleanWord (str ''SUPER'') \<and> cleanWord (str ''GOLD'') \<and> cleanWord (str ''QUEST'') \<and>
   joinSpace (map fst (titleLayout asciiUpper (fixedWidth 78) 129 (str ''Super Gold Quest'') 1080 1920)) =
     asciiUpper (str ''Super Gold Quest'') \<and>
   asciiUpper (str ''Super Gold Quest'') = str ''SUPER GOLD QUEST''"
proof -
  have s: "splitSpace (asciiUpper (str ''Super Gold Quest'')) = [str ''SUPER'', str ''GOLD'', str ''QUEST'']"
    and c: "cleanWord (str ''SUPER'')" "cleanWord (str ''GOLD'')" "cleanWord (str ''QUEST'')"
    and u: "asciiUpper (str ''Super Gold Quest'') = str ''SUPER GOLD QUEST''"
    by code_simp+
  from c have h: "asciiUpper (str ''Super Gold Quest'') = [] \<or>
      (\<forall>w \<in> set (splitSpace (asciiUpper (str ''Super Gold Quest''))). cleanWord w)"
    by (simp only: s) simp
  from wrapped_lines_rejoin [where upper = asciiUpper and gameName = "str ''Super Gold Quest''"
      and measureFn = "fixedWidth 78" and fontSizeName = 129 and targetWidth = 1080
      and targetHeight = 1920, OF h] u s c
  show ?thesis by blast
qed


end
